theory Spec2Isabelle
  imports
    Main
    "HOL-Library.Word"
    "HOL-Library.AList"
    "HOL-Library.Char_ord"
    "HOL-Library.List_Lexorder"
    "HOL-Library.Sublist"
begin

section \<open>Data model of nv_execution_provider_utils.h\<close>

text \<open>
  The C++ integer types: \<open>int64_t\<close> and \<open>size_t\<close> are 64-bit words (\<open>size_t\<close> read
  unsigned), \<open>int\<close> is a 32-bit two's complement value, kept as the \<open>int\<close> that
  \<open>sint\<close> reads from a 32-bit word.
\<close>

type_synonym int64_t = "64 word"
type_synonym size_t = "64 word"

text \<open>
  A \<open>std::unordered_map\<close> is an association list with pairwise distinct keys. The order
  of the list is the iteration order of the container, which C++ leaves unspecified: a
  statement about a map that is an input holds for every list, hence for every
  iteration order. \<open>find\<close> is \<open>map_of\<close>, \<open>size()\<close> is \<open>length\<close>, the assignment
  \<open>m[k] = v\<close> is \<open>AList.update\<close>.
\<close>

type_synonym ('k, 'v) unordered_map = "('k \<times> 'v) list"

text \<open>\<open>profile_min_shapes\<close>, \<open>profile_max_shapes\<close>, \<open>profile_opt_shapes\<close>:
  tensor name to a vector (over profiles) of vectors (over dimensions).\<close>

type_synonym profile_shapes = "(string, int64_t list list) unordered_map"

text \<open>\<open>shape_ranges\<close>: tensor name to dimension index to a vector (over profiles) of
  \<open>[min, max, opt]\<close> vectors.\<close>

type_synonym dim_ranges = "(size_t, int64_t list list) unordered_map"
type_synonym shape_ranges = "(string, dim_ranges) unordered_map"

text \<open>
  What a call can end in other than a return value: an unchecked \<open>operator[]\<close> past the
  end of a \<open>std::vector\<close> (undefined behaviour in C++), and the exceptions of the
  standard library that the functions of this file let escape.
\<close>

datatype fault =
    VectorIndexPastEnd
  | StdOutOfRange
  | StdInvalidArgument
  | FilesystemError

definition fault_bind :: "fault + 'a \<Rightarrow> ('a \<Rightarrow> fault + 'b) \<Rightarrow> fault + 'b" where
  "fault_bind r f = (case r of Inl e \<Rightarrow> Inl e | Inr x \<Rightarrow> f x)"

definition at :: "'a list \<Rightarrow> nat \<Rightarrow> fault + 'a" where
  "at v i = (if i < length v then Inr (v ! i) else Inl VectorIndexPastEnd)"

text \<open>\<open>m[k]\<close> read as a value: the mapped vector, or the empty vector that
  \<open>operator[]\<close> inserts when the key is absent.\<close>

definition subscript :: "('k, 'a list) unordered_map \<Rightarrow> 'k \<Rightarrow> 'a list" where
  "subscript m k = (case map_of m k of None \<Rightarrow> [] | Some v \<Rightarrow> v)"

definition static_cast_int :: "nat \<Rightarrow> int" where
  "static_cast_int n = sint (word_of_nat n :: 32 word)"

definition static_cast_size_t :: "int \<Rightarrow> size_t" where
  "static_cast_size_t n = word_of_int n"

section \<open>GetNumProfiles\<close>

fun GetNumProfiles_loop :: "int \<Rightarrow> profile_shapes \<Rightarrow> int" where
  "GetNumProfiles_loop num_profile [] = num_profile"
| "GetNumProfiles_loop num_profile (it # rest) =
     (let num_profile' = static_cast_int (length (snd it))
      in if num_profile' > 0 then num_profile' else GetNumProfiles_loop num_profile' rest)"

definition GetNumProfiles :: "profile_shapes \<Rightarrow> int" where
  "GetNumProfiles profile_shapes = GetNumProfiles_loop 0 profile_shapes"

section \<open>The profile file and DeserializeProfileV2\<close>

text \<open>
  The profile file is a FlexBuffers buffer. The FlexBuffers library is not part of the
  sources at hand; the model takes the buffer as the value its root reference denotes.
  The steps before \<open>GetRoot\<close> (sizing the file with \<open>tellg\<close>, allocating, reading)
  are not part of the model: the decoders are modelled on buffers that have been read.
  The accessors used by the decoders are total in the library: \<open>AsMap()\<close> on a value
  that is not a map gives the empty map, \<open>AsTypedVector()\<close> on a value that is not a
  typed vector gives the empty typed vector. Map keys are C strings. The datatype has
  the values the encoders write, a map from keys to typed vectors of integers, and
  scalars and strings for the roots and map values of any other type.
\<close>

datatype flex =
    FlexNull
  | FlexInt int64_t
  | FlexString string
  | FlexTypedVector "int64_t list"
  | FlexMap "(string \<times> flex) list"

fun AsMap :: "flex \<Rightarrow> (string \<times> flex) list" where
  "AsMap (FlexMap entries) = entries"
| "AsMap _ = []"

fun AsTypedVector :: "flex \<Rightarrow> int64_t list" where
  "AsTypedVector (FlexTypedVector values) = values"
| "AsTypedVector _ = []"

text \<open>A C string ends at its first NUL byte: \<open>std::string(s.c_str())\<close>.\<close>

definition c_str :: "string \<Rightarrow> string" where
  "c_str s = takeWhile (\<lambda>c. c \<noteq> CHR 0x00) s"

text \<open>\<open>m[k].push_back(v)\<close>, the key being inserted with an empty vector when it is
  absent.\<close>

definition push_back_profile ::
  "'k \<Rightarrow> 'a \<Rightarrow> ('k, 'a list) unordered_map \<Rightarrow> ('k, 'a list) unordered_map" where
  "push_back_profile dim shape_vector inner_map =
     AList.update dim (subscript inner_map dim @ [shape_vector]) inner_map"

text \<open>
  The loop over \<open>k < dim_range_vector.size() / 4\<close>: each complete group of four values
  \<open>dim, min, max, opt\<close> appends \<open>[min, max, opt]\<close> to the vector of \<open>dim\<close>; fewer than
  four remaining values end the loop.
\<close>

fun decode_dims_v2 :: "int64_t list \<Rightarrow> dim_ranges \<Rightarrow> dim_ranges" where
  "decode_dims_v2 (dim # mn # mx # opt # rest) inner_map =
     decode_dims_v2 rest (push_back_profile dim [mn, mx, opt] inner_map)"
| "decode_dims_v2 _ inner_map = inner_map"

fun decode_tensors_v2 :: "(string \<times> flex) list \<Rightarrow> shape_ranges \<Rightarrow> shape_ranges" where
  "decode_tensors_v2 [] shape_ranges = shape_ranges"
| "decode_tensors_v2 ((key, val) # rest) shape_ranges =
     decode_tensors_v2 rest
       (AList.update (c_str key) (decode_dims_v2 (AsTypedVector val) []) shape_ranges)"

definition DeserializeProfileV2 :: "flex \<Rightarrow> shape_ranges" where
  "DeserializeProfileV2 root = decode_tensors_v2 (AsMap root) []"

section \<open>CompareProfiles\<close>

text \<open>
  One pass of the loop over the profiles of a stored dimension. \<open>Inr True\<close> is
  \<open>return true\<close>, \<open>Inr False\<close> is falling through to the next pass, \<open>Inl\<close> is an
  unchecked read past the end of a vector. The reads happen in the order of the
  source: the min vector and its bound check, the min value, then the max and the opt
  vector and value, each only after the comparison before it found equal values.
\<close>

definition compare_profile ::
  "profile_shapes \<Rightarrow> profile_shapes \<Rightarrow> profile_shapes \<Rightarrow>
   string \<Rightarrow> size_t \<Rightarrow> nat \<Rightarrow> int64_t list \<Rightarrow> fault + bool" where
  "compare_profile profile_min_shapes profile_max_shapes profile_opt_shapes
     tensor_name dim i shape_values =
   fault_bind (at (subscript profile_min_shapes tensor_name) i) (\<lambda>min_i.
   if dim > word_of_nat (length min_i) - 1 then Inr True else
   fault_bind (at min_i (unat dim)) (\<lambda>min_v.
   fault_bind (at shape_values 0) (\<lambda>stored_min.
   if min_v \<noteq> stored_min then Inr True else
   fault_bind (at (subscript profile_max_shapes tensor_name) i) (\<lambda>max_i.
   fault_bind (at max_i (unat dim)) (\<lambda>max_v.
   fault_bind (at shape_values 1) (\<lambda>stored_max.
   if max_v \<noteq> stored_max then Inr True else
   fault_bind (at (subscript profile_opt_shapes tensor_name) i) (\<lambda>opt_i.
   fault_bind (at opt_i (unat dim)) (\<lambda>opt_v.
   fault_bind (at shape_values 2) (\<lambda>stored_opt.
   if opt_v \<noteq> stored_opt then Inr True else Inr False)))))))))"

fun compare_profiles_loop ::
  "profile_shapes \<Rightarrow> profile_shapes \<Rightarrow> profile_shapes \<Rightarrow>
   string \<Rightarrow> size_t \<Rightarrow> nat \<Rightarrow> int64_t list list \<Rightarrow> fault + bool" where
  "compare_profiles_loop mn mx opt tensor_name dim i [] = Inr False"
| "compare_profiles_loop mn mx opt tensor_name dim i (shape_values # rest) =
     (case compare_profile mn mx opt tensor_name dim i shape_values of
        Inl e \<Rightarrow> Inl e
      | Inr True \<Rightarrow> Inr True
      | Inr False \<Rightarrow> compare_profiles_loop mn mx opt tensor_name dim (Suc i) rest)"

fun compare_dims_loop ::
  "profile_shapes \<Rightarrow> profile_shapes \<Rightarrow> profile_shapes \<Rightarrow>
   string \<Rightarrow> dim_ranges \<Rightarrow> fault + bool" where
  "compare_dims_loop mn mx opt tensor_name [] = Inr False"
| "compare_dims_loop mn mx opt tensor_name ((dim, profiles) # rest) =
     (if word_of_nat (length profiles) \<noteq> static_cast_size_t (GetNumProfiles mn) then Inr True
      else case compare_profiles_loop mn mx opt tensor_name dim 0 profiles of
        Inl e \<Rightarrow> Inl e
      | Inr True \<Rightarrow> Inr True
      | Inr False \<Rightarrow> compare_dims_loop mn mx opt tensor_name rest)"

fun compare_tensors_loop ::
  "profile_shapes \<Rightarrow> profile_shapes \<Rightarrow> profile_shapes \<Rightarrow> shape_ranges \<Rightarrow> fault + bool" where
  "compare_tensors_loop mn mx opt [] = Inr False"
| "compare_tensors_loop mn mx opt ((tensor_name, dims) # rest) =
     (if map_of mn tensor_name = None then Inr True
      else case compare_dims_loop mn mx opt tensor_name dims of
        Inl e \<Rightarrow> Inl e
      | Inr True \<Rightarrow> Inr True
      | Inr False \<Rightarrow> compare_tensors_loop mn mx opt rest)"

text \<open>
  \<open>profile_files file_name\<close> is what opening \<open>file_name\<close> for reading gives: \<open>None\<close>
  when the stream is not good after construction (no such file), otherwise the root of
  the FlexBuffers buffer the file holds.
\<close>

definition CompareProfiles ::
  "(string \<Rightarrow> flex option) \<Rightarrow> string \<Rightarrow>
   profile_shapes \<Rightarrow> profile_shapes \<Rightarrow> profile_shapes \<Rightarrow> fault + bool" where
  "CompareProfiles profile_files file_name profile_min_shapes profile_max_shapes profile_opt_shapes =
   (case profile_files file_name of
      None \<Rightarrow> Inr True
    | Some root \<Rightarrow>
        (let shape_ranges = DeserializeProfileV2 root
         in if length profile_min_shapes \<noteq> length shape_ranges then Inr True
            else compare_tensors_loop profile_min_shapes profile_max_shapes profile_opt_shapes
                   shape_ranges))"

section \<open>ValidateProfileShapes\<close>

fun validate_loop :: "profile_shapes \<Rightarrow> profile_shapes \<Rightarrow> profile_shapes \<Rightarrow> bool" where
  "validate_loop [] profile_max_shapes profile_opt_shapes = True"
| "validate_loop ((input_name, profiles) # rest) profile_max_shapes profile_opt_shapes =
     (if map_of profile_max_shapes input_name = None \<or>
         map_of profile_opt_shapes input_name = None then False
      else if length profiles \<noteq> length (subscript profile_max_shapes input_name) \<or>
              length profiles \<noteq> length (subscript profile_opt_shapes input_name) then False
      else validate_loop rest profile_max_shapes profile_opt_shapes)"

definition ValidateProfileShapes ::
  "profile_shapes \<Rightarrow> profile_shapes \<Rightarrow> profile_shapes \<Rightarrow> bool" where
  "ValidateProfileShapes profile_min_shapes profile_max_shapes profile_opt_shapes =
   (if profile_min_shapes = [] \<and> profile_max_shapes = [] \<and> profile_opt_shapes = [] then True
    else if length profile_min_shapes \<noteq> length profile_max_shapes \<and>
            length profile_min_shapes \<noteq> length profile_opt_shapes \<and>
            length profile_max_shapes \<noteq> length profile_opt_shapes then False
    else validate_loop profile_min_shapes profile_max_shapes profile_opt_shapes)"

section \<open>Predicates for the statements about CompareProfiles\<close>

text \<open>The requested value \<open>m[tensor_name][i][dim]\<close>, when both indices are within
  the vectors they index.\<close>

definition lookup_shape :: "profile_shapes \<Rightarrow> string \<Rightarrow> nat \<Rightarrow> size_t \<Rightarrow> int64_t option" where
  "lookup_shape m tensor_name i dim =
     (let v = subscript m tensor_name
      in if i < length v \<and> unat dim < length (v ! i) then Some (v ! i ! unat dim) else None)"

text \<open>The stored triple \<open>shape_values = [min, max, opt]\<close> of profile \<open>i\<close> of dimension
  \<open>dim\<close> equals the requested min, max and opt values at that dimension index.\<close>

definition triple_matches ::
  "profile_shapes \<Rightarrow> profile_shapes \<Rightarrow> profile_shapes \<Rightarrow>
   string \<Rightarrow> size_t \<Rightarrow> nat \<Rightarrow> int64_t list \<Rightarrow> bool" where
  "triple_matches mn mx opt tensor_name dim i shape_values \<longleftrightarrow>
     lookup_shape mn tensor_name i dim = Some (shape_values ! 0) \<and>
     lookup_shape mx tensor_name i dim = Some (shape_values ! 1) \<and>
     lookup_shape opt tensor_name i dim = Some (shape_values ! 2)"

text \<open>The range check of the source, \<open>dim > size() - 1\<close> in \<open>size_t\<close> arithmetic, does
  not fire.\<close>

definition passes_range_check :: "profile_shapes \<Rightarrow> string \<Rightarrow> nat \<Rightarrow> size_t \<Rightarrow> bool" where
  "passes_range_check mn tensor_name i dim \<longleftrightarrow>
     dim \<le> word_of_nat (length (subscript mn tensor_name ! i)) - 1"

definition dim_matches ::
  "profile_shapes \<Rightarrow> profile_shapes \<Rightarrow> profile_shapes \<Rightarrow>
   string \<Rightarrow> size_t \<Rightarrow> int64_t list list \<Rightarrow> bool" where
  "dim_matches mn mx opt tensor_name dim profiles \<longleftrightarrow>
     (\<forall>i<length profiles.
        passes_range_check mn tensor_name i dim \<and>
        triple_matches mn mx opt tensor_name dim i (profiles ! i))"

definition every_stored_triple_matches ::
  "shape_ranges \<Rightarrow> profile_shapes \<Rightarrow> profile_shapes \<Rightarrow> profile_shapes \<Rightarrow> bool" where
  "every_stored_triple_matches stored mn mx opt \<longleftrightarrow>
     (\<forall>(tensor_name, dims)\<in>set stored. \<forall>(dim, profiles)\<in>set dims.
        \<forall>i<length profiles. triple_matches mn mx opt tensor_name dim i (profiles ! i))"

definition every_stored_dim_in_range :: "shape_ranges \<Rightarrow> profile_shapes \<Rightarrow> bool" where
  "every_stored_dim_in_range stored mn \<longleftrightarrow>
     (\<forall>(tensor_name, dims)\<in>set stored. \<forall>(dim, profiles)\<in>set dims.
        \<forall>i<length profiles. passes_range_check mn tensor_name i dim)"

text \<open>The structural checks of CompareProfiles: as many requested tensors as stored
  ones, every stored tensor requested, every stored profile count equal to
  \<open>GetNumProfiles\<close> of the requested min shapes.\<close>

definition same_structure :: "profile_shapes \<Rightarrow> shape_ranges \<Rightarrow> bool" where
  "same_structure mn stored \<longleftrightarrow>
     length mn = length stored \<and>
     (\<forall>(tensor_name, dims)\<in>set stored.
        map_of mn tensor_name \<noteq> None \<and>
        (\<forall>(dim, profiles)\<in>set dims.
           word_of_nat (length profiles) = static_cast_size_t (GetNumProfiles mn)))"

definition triples_only :: "dim_ranges \<Rightarrow> bool" where
  "triples_only dims \<longleftrightarrow> (\<forall>(dim, profiles)\<in>set dims. \<forall>sv\<in>set profiles. length sv = 3)"

text \<open>Every per-profile flattened shape vector of a requested mapping is non-empty.\<close>

definition shape_vectors_nonempty :: "profile_shapes \<Rightarrow> bool" where
  "shape_vectors_nonempty m \<longleftrightarrow>
     list_all (\<lambda>(tensor_name, profiles). list_all (\<lambda>shape. shape \<noteq> []) profiles) m"

text \<open>Two of the three requested mappings have the same key set.\<close>

definition same_keys :: "profile_shapes \<Rightarrow> profile_shapes \<Rightarrow> bool" where
  "same_keys a b \<longleftrightarrow> fst ` set a = fst ` set b"

section \<open>SerializeProfileV2\<close>

text \<open>
  The builder receives, for each tensor in iteration order, the key
  \<open>tensor_it->first.c_str()\<close> and a typed vector with the four values
  \<open>dim, [i][0], [i][1], [i][2]\<close> of every profile \<open>i\<close> of every dimension;
  \<open>EndMap\<close> stores the entries sorted by key. The result is the root of the buffer
  that is written to the file.
\<close>

definition encode_profile :: "size_t \<Rightarrow> int64_t list \<Rightarrow> fault + int64_t list" where
  "encode_profile dim shape =
     fault_bind (at shape 0) (\<lambda>mn.
     fault_bind (at shape 1) (\<lambda>mx.
     fault_bind (at shape 2) (\<lambda>opt. Inr [dim, mn, mx, opt])))"

fun encode_profiles :: "size_t \<Rightarrow> int64_t list list \<Rightarrow> fault + int64_t list" where
  "encode_profiles dim [] = Inr []"
| "encode_profiles dim (shape # rest) =
     fault_bind (encode_profile dim shape) (\<lambda>values.
     fault_bind (encode_profiles dim rest) (\<lambda>others. Inr (values @ others)))"

fun encode_dims :: "dim_ranges \<Rightarrow> fault + int64_t list" where
  "encode_dims [] = Inr []"
| "encode_dims ((dim, profiles) # rest) =
     fault_bind (encode_profiles dim profiles) (\<lambda>values.
     fault_bind (encode_dims rest) (\<lambda>others. Inr (values @ others)))"

fun encode_tensors :: "shape_ranges \<Rightarrow> fault + (string \<times> flex) list" where
  "encode_tensors [] = Inr []"
| "encode_tensors ((tensor_name, dims) # rest) =
     fault_bind (encode_dims dims) (\<lambda>values.
     fault_bind (encode_tensors rest) (\<lambda>others.
       Inr ((c_str tensor_name, FlexTypedVector values) # others)))"

definition SerializeProfileV2 :: "shape_ranges \<Rightarrow> fault + flex" where
  "SerializeProfileV2 shape_ranges =
     fault_bind (encode_tensors shape_ranges) (\<lambda>entries. Inr (FlexMap (sort_key fst entries)))"

text \<open>
  A well-formed ShapeProfileSet with profile count \<open>profile_count\<close>: tensor names are
  unique, dimension indices are unique per tensor, every dimension carries
  \<open>profile_count\<close> profiles, every profile is a triple \<open>[min, max, opt]\<close>.
\<close>

definition well_formed_shape_ranges :: "shape_ranges \<Rightarrow> nat \<Rightarrow> bool" where
  "well_formed_shape_ranges x profile_count \<longleftrightarrow>
     distinct (map fst x) \<and>
     (\<forall>(tensor_name, dims)\<in>set x.
        distinct (map fst dims) \<and>
        (\<forall>(dim, profiles)\<in>set dims.
           length profiles = profile_count \<and> (\<forall>shape\<in>set profiles. length shape = 3)))"

text \<open>No tensor name has a NUL byte: every name is the C string \<open>c_str()\<close> gives
  for it.\<close>

definition c_string_names :: "shape_ranges \<Rightarrow> bool" where
  "c_string_names x \<longleftrightarrow> list_all (\<lambda>(tensor_name, dims). c_str tensor_name = tensor_name) x"

text \<open>A \<open>shape_ranges\<close> container read as a map of maps: equality of \<open>as_map\<close>
  is equality of the containers whatever their iteration orders.\<close>

definition as_map :: "shape_ranges \<Rightarrow> string \<Rightarrow> (size_t \<Rightarrow> int64_t list list option) option" where
  "as_map x = map_of (map (\<lambda>(tensor_name, dims). (tensor_name, map_of dims)) x)"


text \<open>The flat value sequence of a tensor whose shape vectors all have three entries.\<close>

fun encoded_dims :: "dim_ranges \<Rightarrow> int64_t list" where
  "encoded_dims [] = []"
| "encoded_dims ((dim, profiles) # rest) =
     concat (map (\<lambda>shape. [dim, shape ! 0, shape ! 1, shape ! 2]) profiles) @ encoded_dims rest"

section \<open>DeserializeProfile (legacy format)\<close>

type_synonym legacy_dim_ranges = "(size_t, int64_t \<times> int64_t) unordered_map"
type_synonym legacy_shape_ranges = "(string, legacy_dim_ranges) unordered_map"

fun decode_dims_legacy :: "int64_t list \<Rightarrow> legacy_dim_ranges \<Rightarrow> legacy_dim_ranges" where
  "decode_dims_legacy (dim # mn # mx # rest) inner_map =
     decode_dims_legacy rest (AList.update dim (mn, mx) inner_map)"
| "decode_dims_legacy _ inner_map = inner_map"

fun decode_tensors_legacy ::
  "(string \<times> flex) list \<Rightarrow> legacy_shape_ranges \<Rightarrow> legacy_shape_ranges" where
  "decode_tensors_legacy [] shape_ranges = shape_ranges"
| "decode_tensors_legacy ((key, val) # rest) shape_ranges =
     decode_tensors_legacy rest
       (AList.update (c_str key) (decode_dims_legacy (AsTypedVector val) []) shape_ranges)"

definition DeserializeProfile :: "flex \<Rightarrow> legacy_shape_ranges" where
  "DeserializeProfile root = decode_tensors_legacy (AsMap root) []"

text \<open>The leading complete groups of \<open>n\<close> values of a flat sequence, and a buffer
  with every typed vector cut down to them.\<close>

definition whole_groups :: "nat \<Rightarrow> 'a list \<Rightarrow> 'a list" where
  "whole_groups n values = take (n * (length values div n)) values"

fun cut_value :: "nat \<Rightarrow> flex \<Rightarrow> flex" where
  "cut_value n (FlexTypedVector values) = FlexTypedVector (whole_groups n values)"
| "cut_value n v = v"

fun cut_trailing_values :: "nat \<Rightarrow> flex \<Rightarrow> flex" where
  "cut_trailing_values n (FlexMap entries) = FlexMap (map (\<lambda>(key, val). (key, cut_value n val)) entries)"
| "cut_trailing_values n root = root"

fun is_FlexMap :: "flex \<Rightarrow> bool" where
  "is_FlexMap (FlexMap entries) = True"
| "is_FlexMap _ = False"

text \<open>
  The leading complete groups of \<open>n\<close> values of a flat sequence, by position: group
  \<open>k\<close> holds the values at the positions \<open>n * k\<close> to \<open>n * k + n - 1\<close>, for every \<open>k\<close>
  below \<open>length vs div n\<close>. The flat sequence a buffer holds for a tensor name is the
  typed vector of the last map entry with that key. In the current format the
  profiles of a dimension index are the \<open>[min, max, opt]\<close> parts of the groups of four
  that start with the index, in order; in the legacy format the range of a dimension
  index is the \<open>(min, max)\<close> part of the last group of three that starts with it.
\<close>

definition complete_groups :: "nat \<Rightarrow> 'a list \<Rightarrow> 'a list list" where
  "complete_groups n vs = map (\<lambda>k. take n (drop (n * k) vs)) [0..<length vs div n]"

definition stored_vector :: "(string \<times> flex) list \<Rightarrow> string \<Rightarrow> int64_t list option" where
  "stored_vector entries tensor_name =
     map_option AsTypedVector
       (map_of (rev (map (\<lambda>(key, val). (c_str key, val)) entries)) tensor_name)"

definition profiles_of_dim :: "int64_t list \<Rightarrow> size_t \<Rightarrow> int64_t list list" where
  "profiles_of_dim vs dim = map tl (filter (\<lambda>g. hd g = dim) (complete_groups 4 vs))"

definition range_of_dim :: "int64_t list \<Rightarrow> size_t \<Rightarrow> (int64_t \<times> int64_t) option" where
  "range_of_dim vs dim =
     (let groups = filter (\<lambda>g. hd g = dim) (complete_groups 3 vs)
      in if groups = [] then None else Some (last groups ! 1, last groups ! 2))"

section \<open>TRTGenerateId\<close>

text \<open>
  The graph, as far as TRTGenerateId reads it: the parent link of a subgraph, and the
  file name component of the model path, \<open>ModelPath().filename()\<close> as a UTF-8 string
  (\<open>has_filename()\<close> is its being non-empty). A node argument has a name and may be an
  absent optional output. The viewer gives the graph, the graph inputs including
  initializers, and the output definitions of each node in topological order.
\<close>

datatype graph = Graph (ParentGraph: "graph option") (model_file_name: string)

record node_arg =
  Name :: string
  Exists :: bool

record graph_viewer =
  GetGraph :: graph
  GetInputsIncludingInitializers :: "node_arg list"
  OutputDefsInTopologicalOrder :: "node_arg list list"

text \<open>The preprocessor symbols the function depends on.\<close>

datatype platform = Linux | Windows | OtherPlatform

record build_config =
  target_platform :: platform
  ORT_VERSION :: "string option"
  CUDA_VERSION_defined :: bool
  NV_TENSORRT_MAJOR_MINOR_defined :: bool

text \<open>\<open>while (cur_graph->IsSubgraph()) cur_graph = cur_graph->ParentGraph();\<close>\<close>

fun top_level_graph :: "graph \<Rightarrow> graph" where
  "top_level_graph (Graph None name) = Graph None name"
| "top_level_graph (Graph (Some parent) name) = top_level_graph parent"

text \<open>
  The loop \<open>for (i = model_name_length; i > 0 && i < 500; i += model_name_length)
  repeat_model_name += model_name\<close>. As a function of an arbitrary \<open>i\<close> it need not
  end (\<open>i > 0\<close> with an empty name), so its result is optional.
\<close>

partial_function (option) repeat_loop :: "nat \<Rightarrow> string \<Rightarrow> string \<Rightarrow> string option" where
  "repeat_loop i model_name repeat_model_name =
     (if 0 < i \<and> i < 500
      then repeat_loop (i + length model_name) model_name (repeat_model_name @ model_name)
      else Some repeat_model_name)"

declare repeat_loop.simps [code]

definition repeat_model_name :: "string \<Rightarrow> string option" where
  "repeat_model_name model_name = repeat_loop (length model_name) model_name model_name"

text \<open>
  MurmurHash3 is not part of the sources at hand: \<open>MurmurHash3::x86_128(key, len, seed,
  out)\<close> is a parameter, a function from the key bytes, the length (narrowed to
  \<open>int32_t\<close>) and the seed to the four output words. \<open>hash_str\<close> seeds it with
  \<open>hash[0]\<close> and overwrites \<open>hash\<close>.
\<close>

type_synonym hash128 = "32 word \<times> 32 word \<times> 32 word \<times> 32 word"
type_synonym murmur = "string \<Rightarrow> 32 word \<Rightarrow> 32 word \<Rightarrow> hash128"

definition hash_str :: "murmur \<Rightarrow> string \<Rightarrow> hash128 \<Rightarrow> hash128" where
  "hash_str x86_128 str hash = x86_128 str (word_of_nat (length str)) (fst hash)"

text \<open>The strings passed to \<open>hash_str\<close>, in the order of the calls: first the ones of
  the file-name step, then all the others.\<close>

definition model_name_strings :: "graph \<Rightarrow> string list option" where
  "model_name_strings main_graph =
     (if model_file_name main_graph \<noteq> []
      then map_option (\<lambda>s. [s]) (repeat_model_name (model_file_name main_graph))
      else Some [])"

fun platform_strings :: "platform \<Rightarrow> string list" where
  "platform_strings Linux = [''LINUX'']"
| "platform_strings Windows = [''WINDOWS'']"
| "platform_strings OtherPlatform = []"

definition other_strings :: "build_config \<Rightarrow> graph_viewer \<Rightarrow> string \<Rightarrow> string \<Rightarrow> string list" where
  "other_strings build graph_viewer trt_version cuda_version =
     map Name (GetInputsIncludingInitializers graph_viewer) @
     concat (map (\<lambda>output_defs. map Name (filter Exists output_defs))
       (OutputDefsInTopologicalOrder graph_viewer)) @
     platform_strings (target_platform build) @
     (case ORT_VERSION build of None \<Rightarrow> [] | Some v \<Rightarrow> [v]) @
     (if CUDA_VERSION_defined build then [cuda_version] else []) @
     (if NV_TENSORRT_MAJOR_MINOR_defined build then [trt_version] else [])"

definition hashed_strings ::
  "build_config \<Rightarrow> graph_viewer \<Rightarrow> string \<Rightarrow> string \<Rightarrow> string list option" where
  "hashed_strings build graph_viewer trt_version cuda_version =
     map_option (\<lambda>name_strings. name_strings @ other_strings build graph_viewer trt_version cuda_version)
       (model_name_strings (top_level_graph (GetGraph graph_viewer)))"

text \<open>\<open>model_hash = hash[0] | (uint64_t(hash[1]) << 32)\<close>; \<open>None\<close> is not returning.\<close>

definition TRTGenerateId ::
  "murmur \<Rightarrow> build_config \<Rightarrow> graph_viewer \<Rightarrow> string \<Rightarrow> string \<Rightarrow> 64 word option" where
  "TRTGenerateId x86_128 build graph_viewer trt_version cuda_version =
     map_option
       (\<lambda>strings.
          let hash = foldl (\<lambda>hash str. hash_str x86_128 str hash) (0, 0, 0, 0) strings
          in or (ucast (fst hash)) (push_bit 32 (ucast (fst (snd hash)))))
       (hashed_strings build graph_viewer trt_version cuda_version)"

section \<open>split, join and GetCacheSuffix\<close>

text \<open>
  \<open>while (std::getline(tokenStream, token, delimiter)) tokens.push_back(token)\<close>:
  \<open>getline\<close> extracts characters up to and including the next delimiter and succeeds
  if it extracted any; \<open>token\<close> is what has been extracted of the current token.
\<close>

fun split_loop :: "char \<Rightarrow> string \<Rightarrow> string \<Rightarrow> string list" where
  "split_loop delimiter token [] = (if token = [] then [] else [token])"
| "split_loop delimiter token (c # rest) =
     (if c = delimiter then token # split_loop delimiter [] rest
      else split_loop delimiter (token @ [c]) rest)"

definition split :: "string \<Rightarrow> char \<Rightarrow> string list" where
  "split str delimiter = split_loop delimiter [] str"

fun join :: "string list \<Rightarrow> string \<Rightarrow> string" where
  "join [] delimiter = []"
| "join [token] delimiter = token"
| "join (token # next_token # rest) delimiter =
     token @ delimiter @ join (next_token # rest) delimiter"

text \<open>\<open>std::string::find(needle)\<close>: the first position at which \<open>needle\<close> starts, or
  \<open>npos\<close> (here \<open>None\<close>).\<close>

fun find_from :: "nat \<Rightarrow> string \<Rightarrow> string \<Rightarrow> nat option" where
  "find_from pos needle [] = (if needle = [] then Some pos else None)"
| "find_from pos needle (c # rest) =
     (if prefix needle (c # rest) then Some pos else find_from (Suc pos) needle rest)"

definition string_find :: "string \<Rightarrow> string \<Rightarrow> nat option" where
  "string_find str needle = find_from 0 needle str"

text \<open>\<open>std::string::substr(pos)\<close> throws \<open>std::out_of_range\<close> when \<open>pos > size()\<close>;
  \<open>npos\<close> is larger than every size.\<close>

definition substr :: "string \<Rightarrow> nat option \<Rightarrow> fault + string" where
  "substr str pos =
     (case pos of
        None \<Rightarrow> Inl StdOutOfRange
      | Some p \<Rightarrow> if p > length str then Inl StdOutOfRange else Inr (drop p str))"

text \<open>\<open>v.erase(v.begin() + 2)\<close> on a vector with more than two elements.\<close>

definition erase_at_2 :: "'a list \<Rightarrow> 'a list" where
  "erase_at_2 v = take 2 v @ drop 3 v"

definition GetCacheSuffix :: "string \<Rightarrow> string \<Rightarrow> fault + string" where
  "GetCacheSuffix fused_node_name trt_node_name_with_precision =
     (let split_fused_node_name = split fused_node_name CHR ''_''
      in if length split_fused_node_name \<ge> 3 then
           (let model_hash = split_fused_node_name ! (length split_fused_node_name - 3);
                index = string_find fused_node_name model_hash
            in fault_bind (substr trt_node_name_with_precision index) (\<lambda>from_index.
                 let suffix_group = split from_index CHR ''_''
                 in Inr (join (if length suffix_group > 2 then erase_at_2 suffix_group
                               else suffix_group) ''_'')))
         else Inr [])"

text \<open>
  The derivation as the specification words it: the digit-string is located inside
  \<open>precisionQualifiedName\<close>. Where it does not occur the specification leaves the result
  open (\<open>None\<close>).
\<close>

definition DeriveSuffix_as_specified :: "string \<Rightarrow> string \<Rightarrow> string option" where
  "DeriveSuffix_as_specified fusedNodeName precisionQualifiedName =
     (let tokens = split fusedNodeName CHR ''_''
      in if length tokens < 3 then Some []
         else (let digits = tokens ! (length tokens - 3)
               in case string_find precisionQualifiedName digits of
                    None \<Rightarrow> None
                  | Some p \<Rightarrow>
                      (let group = split (drop p precisionQualifiedName) CHR ''_''
                       in Some (join (if length group > 2 then erase_at_2 group else group) ''_''))))"

section \<open>GetCachesByType\<close>

text \<open>
  The file system, as far as \<open>fs::directory_iterator(root)\<close> reads it:
  \<open>directories root\<close> is \<open>Some names\<close> when \<open>root\<close> is an existing directory with the
  entries \<open>names\<close> (dot and dot-dot left out, each a file name without separator),
  and \<open>None\<close> when \<open>root\<close> does not exist or is not a directory: the constructor of the
  iterator that takes no \<open>error_code\<close> then throws \<open>filesystem_error\<close>. An entry
  converts to the path \<open>root / name\<close>.
\<close>

type_synonym directories = "string \<Rightarrow> string list option"

definition path_append :: "string \<Rightarrow> string \<Rightarrow> string" where
  "path_append p q =
     (if q \<noteq> [] \<and> hd q = CHR ''/'' then q
      else if p \<noteq> [] \<and> last p \<noteq> CHR ''/'' then p @ ''/'' @ q
      else p @ q)"

definition filename :: "string \<Rightarrow> string" where
  "filename p = rev (takeWhile (\<lambda>c. c \<noteq> CHR ''/'') (rev p))"

text \<open>
  \<open>path::extension()\<close>: the part of the file name from its last period on, empty when
  the file name is dot or dot-dot, has no period, or has its only period in front.
\<close>

definition extension :: "string \<Rightarrow> string" where
  "extension p =
     (let f = filename p;
          after_last_period = rev (takeWhile (\<lambda>c. c \<noteq> CHR ''.'') (rev f))
      in if f = ''.'' \<or> f = ''..'' \<or> CHR ''.'' \<notin> set f \<or>
            Suc (length after_last_period) = length f
         then []
         else CHR ''.'' # after_last_period)"

text \<open>
  The loop over the entries. \<open>fs::path(file_extension) == fs::path(entry).extension()\<close>
  compares a path with an extension, which has no separator: the two are equal as
  paths exactly when they are equal as strings.
\<close>

fun GetCachesByType_loop :: "string \<Rightarrow> string list \<Rightarrow> string list \<Rightarrow> string list" where
  "GetCachesByType_loop file_extension [] cache_files = cache_files"
| "GetCachesByType_loop file_extension (entry # rest) cache_files =
     GetCachesByType_loop file_extension rest
       (if file_extension = extension entry then cache_files @ [entry] else cache_files)"

definition GetCachesByType :: "directories \<Rightarrow> string \<Rightarrow> string \<Rightarrow> fault + string list" where
  "GetCachesByType directories root file_extension =
     (case directories root of
        None \<Rightarrow> Inl FilesystemError
      | Some names \<Rightarrow>
          Inr (GetCachesByType_loop file_extension (map (path_append root) names) []))"

section \<open>MakeInputNameShapePair and ParseProfileShapes\<close>

text \<open>
  \<open>std::stoi(value)\<close>, that is \<open>strtol\<close> in base 10 narrowed to \<open>int\<close>: leading white
  space is skipped, a sign is optional, the digits that follow are the number and
  whatever comes after them is ignored; no digit throws \<open>std::invalid_argument\<close>, a
  number that does not fit \<open>int\<close> throws \<open>std::out_of_range\<close>.
\<close>

definition isspace :: "char \<Rightarrow> bool" where
  "isspace c \<longleftrightarrow> c \<in> set [CHR '' '', CHR 0x09, CHR 0x0A, CHR 0x0B, CHR 0x0C, CHR 0x0D]"

definition isdigit :: "char \<Rightarrow> bool" where
  "isdigit c \<longleftrightarrow> c \<in> set ''0123456789''"

definition decimal :: "string \<Rightarrow> int" where
  "decimal digits = foldl (\<lambda>n c. 10 * n + (int (of_char c) - 48)) 0 digits"

definition stoi :: "string \<Rightarrow> fault + int" where
  "stoi str =
     (let unspaced = dropWhile isspace str;
          negative = (unspaced \<noteq> [] \<and> hd unspaced = CHR ''-'');
          unsigned = (if unspaced \<noteq> [] \<and> (hd unspaced = CHR ''-'' \<or> hd unspaced = CHR ''+'')
                      then tl unspaced else unspaced);
          digits = takeWhile isdigit unsigned;
          n = (if negative then - decimal digits else decimal digits)
      in if digits = [] then Inl StdInvalidArgument
         else if n < - (2 ^ 31) \<or> 2 ^ 31 - 1 < n then Inl StdOutOfRange
         else Inr n)"

text \<open>\<open>while (std::getline(shape_string_stream, value, 'x'))
  shapes.push_back(std::stoi(value))\<close>, over the tokens \<open>getline\<close> delivers.\<close>

fun parse_values :: "string list \<Rightarrow> fault + int64_t list" where
  "parse_values [] = Inr []"
| "parse_values (v # rest) =
     fault_bind (stoi v) (\<lambda>n.
     fault_bind (parse_values rest) (\<lambda>shapes. Inr (word_of_int n # shapes)))"

text \<open>The two \<open>getline\<close> calls with delimiter \<open>:\<close> on a non-empty string: the name is
  what precedes the first colon, the shape what lies between the first and the second.\<close>

definition entry_name :: "string \<Rightarrow> string" where
  "entry_name pair_string = takeWhile (\<lambda>c. c \<noteq> CHR '':'') pair_string"

definition entry_shape :: "string \<Rightarrow> string" where
  "entry_shape pair_string =
     takeWhile (\<lambda>c. c \<noteq> CHR '':'') (drop 1 (dropWhile (\<lambda>c. c \<noteq> CHR '':'') pair_string))"

text \<open>The result is the returned flag and the value of the reference parameter
  \<open>pair\<close> after the call.\<close>

definition MakeInputNameShapePair ::
  "string \<Rightarrow> string \<times> int64_t list \<Rightarrow> fault + (bool \<times> (string \<times> int64_t list))" where
  "MakeInputNameShapePair pair_string pair =
     (if pair_string = [] then Inr (True, pair)
      else
        (let input_name = entry_name pair_string;
             shape = entry_shape pair_string
         in fault_bind (parse_values (split shape CHR ''x'')) (\<lambda>shapes.
              if input_name = [] \<or> shapes = [] then Inr (False, pair)
              else Inr (True, (input_name, shapes)))))"

text \<open>The loop over the comma-separated entries; the result is the returned flag and
  the value of the reference parameter \<open>profile_shapes\<close> after the call.\<close>

fun ParseProfileShapes_loop ::
  "string list \<Rightarrow> profile_shapes \<Rightarrow> fault + (bool \<times> profile_shapes)" where
  "ParseProfileShapes_loop [] profile_shapes = Inr (True, profile_shapes)"
| "ParseProfileShapes_loop (input_name_with_shape # rest) profile_shapes =
     fault_bind (MakeInputNameShapePair input_name_with_shape ([], [])) (\<lambda>(ok, pair).
       if \<not> ok then Inr (False, profile_shapes)
       else ParseProfileShapes_loop rest
              (push_back_profile (fst pair) (snd pair) profile_shapes))"

definition ParseProfileShapes ::
  "string \<Rightarrow> profile_shapes \<Rightarrow> fault + (bool \<times> profile_shapes)" where
  "ParseProfileShapes profile_shapes_string profile_shapes =
     (if profile_shapes_string = [] then Inr (True, profile_shapes)
      else ParseProfileShapes_loop (split profile_shapes_string CHR '','') profile_shapes)"

text \<open>Predicates for the statements about ParseProfileShapes: every shape value of an
  entry is a number \<open>std::stoi\<close> converts; the shape vector of such an entry; an entry
  that MakeInputNameShapePair accepts.\<close>

definition converts :: "string \<Rightarrow> bool" where
  "converts v = (case stoi v of Inl e \<Rightarrow> False | Inr n \<Rightarrow> True)"

definition entry_values :: "string \<Rightarrow> string list" where
  "entry_values pair_string = split (entry_shape pair_string) CHR ''x''"

definition values_convert :: "string \<Rightarrow> bool" where
  "values_convert pair_string = list_all converts (entry_values pair_string)"

definition entry_shape_vector :: "string \<Rightarrow> int64_t list" where
  "entry_shape_vector pair_string =
     map (\<lambda>v. case stoi v of Inl e \<Rightarrow> 0 | Inr n \<Rightarrow> word_of_int n) (entry_values pair_string)"

definition accepted :: "string \<Rightarrow> bool" where
  "accepted pair_string \<longleftrightarrow>
     pair_string = [] \<or> (entry_name pair_string \<noteq> [] \<and> entry_shape pair_string \<noteq> [])"

section \<open>CompareProfiles without a profile file\<close>

text \<open>
  C9. When the profile file cannot be opened (no cache file exists at the path),
  CompareProfiles returns true, whatever the requested min, max and opt shapes are.
\<close>

theorem CompareProfiles_missing_file:
  "profile_files file_name = None \<Longrightarrow>
   CompareProfiles profile_files file_name mn mx opt = Inr True"
  by (simp add: CompareProfiles_def)

theorem CompareProfiles_missing_file_witness:
  "(\<lambda>p. None) ''model.profile'' = None \<and>
   CompareProfiles (\<lambda>p. None) ''model.profile''
     [(''x'', [[1]])] [(''x'', [[10]])] [(''x'', [[5]])] = Inr True"
  using CompareProfiles_missing_file [of "\<lambda>p. None" "''model.profile''"
      "[(''x'', [[1]])]" "[(''x'', [[10]])]" "[(''x'', [[5]])]"]
  by simp

section \<open>CompareProfiles, ValidateProfileShapes and the stored profiles\<close>

lemma compare_profile_False_iff:
  assumes "length sv = 3"
  shows "compare_profile mn mx opt t d i sv = Inr False \<longleftrightarrow>
         passes_range_check mn t i d \<and> triple_matches mn mx opt t d i sv"
  using assms
  unfolding compare_profile_def passes_range_check_def triple_matches_def lookup_shape_def
    fault_bind_def at_def
  by (auto simp: Let_def not_less)

lemma compare_profiles_loop_False_iff:
  assumes "\<forall>sv\<in>set ps. length sv = 3"
  shows "compare_profiles_loop mn mx opt t d i ps = Inr False \<longleftrightarrow>
         (\<forall>j<length ps. passes_range_check mn t (i + j) d \<and> triple_matches mn mx opt t d (i + j) (ps ! j))"
  using assms
proof (induction ps arbitrary: i)
  case Nil
  then show ?case by simp
next
  case (Cons sv ps)
  have len: "length sv = 3" using Cons.prems by simp
  have rest: "\<forall>sv\<in>set ps. length sv = 3" using Cons.prems by simp
  show ?case
  proof (cases "compare_profile mn mx opt t d i sv")
    case (Inl e)
    then have "\<not> (passes_range_check mn t i d \<and> triple_matches mn mx opt t d i sv)"
      using compare_profile_False_iff [OF len, of mn mx opt t d i] by simp
    then have "\<not> (\<forall>j<length (sv # ps). passes_range_check mn t (i + j) d \<and> triple_matches mn mx opt t d (i + j) ((sv # ps) ! j))"
      by (metis add.right_neutral length_greater_0_conv list.distinct(1) nth_Cons_0)
    with Inl show ?thesis by simp
  next
    case (Inr b)
    show ?thesis
    proof (cases b)
      case True
      with Inr have "\<not> (passes_range_check mn t i d \<and> triple_matches mn mx opt t d i sv)"
        using compare_profile_False_iff [OF len, of mn mx opt t d i] by simp
      then have "\<not> (\<forall>j<length (sv # ps). passes_range_check mn t (i + j) d \<and> triple_matches mn mx opt t d (i + j) ((sv # ps) ! j))"
        by (metis add.right_neutral length_greater_0_conv list.distinct(1) nth_Cons_0)
      with Inr True show ?thesis by simp
    next
      case False
      with Inr have head: "passes_range_check mn t i d \<and> triple_matches mn mx opt t d i sv"
        using compare_profile_False_iff [OF len, of mn mx opt t d i] by simp
      have "compare_profiles_loop mn mx opt t d i (sv # ps) = compare_profiles_loop mn mx opt t d (Suc i) ps"
        using Inr False by simp
      also have "\<dots> = Inr False \<longleftrightarrow>
          (\<forall>j<length ps. passes_range_check mn t (Suc i + j) d \<and> triple_matches mn mx opt t d (Suc i + j) (ps ! j))"
        using Cons.IH [OF rest] by simp
      also have "\<dots> \<longleftrightarrow> (\<forall>j<length (sv # ps). passes_range_check mn t (i + j) d \<and> triple_matches mn mx opt t d (i + j) ((sv # ps) ! j))"
        using head by (auto simp: All_less_Suc2)
      finally show ?thesis .
    qed
  qed
qed


lemma compare_dims_loop_False_iff:
  assumes "triples_only dims"
  shows "compare_dims_loop mn mx opt t dims = Inr False \<longleftrightarrow>
         (\<forall>(d, ps)\<in>set dims.
            word_of_nat (length ps) = static_cast_size_t (GetNumProfiles mn) \<and>
            dim_matches mn mx opt t d ps)"
  using assms
proof (induction dims)
  case Nil
  then show ?case by simp
next
  case (Cons p dims)
  obtain d ps where p: "p = (d, ps)" by (cases p)
  have len: "\<forall>sv\<in>set ps. length sv = 3"
    using Cons.prems by (simp add: triples_only_def p)
  have rest: "triples_only dims"
    using Cons.prems by (simp add: triples_only_def)
  have inner: "compare_profiles_loop mn mx opt t d 0 ps = Inr False \<longleftrightarrow> dim_matches mn mx opt t d ps"
    using compare_profiles_loop_False_iff [OF len, of mn mx opt t d 0]
    by (simp add: dim_matches_def)
  show ?case
  proof (cases "word_of_nat (length ps) = static_cast_size_t (GetNumProfiles mn)")
    case False
    then show ?thesis by (simp add: p)
  next
    case True
    show ?thesis
    proof (cases "compare_profiles_loop mn mx opt t d 0 ps")
      case (Inl e)
      with inner True show ?thesis by (simp add: p)
    next
      case (Inr b)
      with inner True Cons.IH [OF rest] show ?thesis by (cases b) (simp_all add: p)
    qed
  qed
qed

lemma compare_tensors_loop_False_iff:
  assumes "\<forall>(t, dims)\<in>set stored. triples_only dims"
  shows "compare_tensors_loop mn mx opt stored = Inr False \<longleftrightarrow>
         (\<forall>(t, dims)\<in>set stored.
            map_of mn t \<noteq> None \<and>
            (\<forall>(d, ps)\<in>set dims.
               word_of_nat (length ps) = static_cast_size_t (GetNumProfiles mn) \<and>
               dim_matches mn mx opt t d ps))"
  using assms
proof (induction stored)
  case Nil
  then show ?case by simp
next
  case (Cons p stored)
  obtain t dims where p: "p = (t, dims)" by (cases p)
  have here: "triples_only dims" using Cons.prems by (simp add: p)
  have rest: "\<forall>(t, dims)\<in>set stored. triples_only dims" using Cons.prems by simp
  note inner = compare_dims_loop_False_iff [OF here, of mn mx opt t]
  show ?case
  proof (cases "map_of mn t")
    case None
    then show ?thesis by (simp add: p)
  next
    case (Some v)
    show ?thesis
    proof (cases "compare_dims_loop mn mx opt t dims")
      case (Inl e)
      with inner Some show ?thesis by (simp add: p)
    next
      case (Inr b)
      with inner Some Cons.IH [OF rest] show ?thesis by (cases b) (simp_all add: p)
    qed
  qed
qed

lemma set_update_subset:
  "set (AList.update k v al) \<subseteq> insert (k, v) (set al)"
  by (induction al) auto

lemma triples_only_push_back:
  assumes "triples_only m"
  shows "triples_only (push_back_profile d [a, b, c] m)"
proof -
  have old: "\<forall>sv\<in>set (subscript m d). length sv = 3"
  proof (cases "map_of m d")
    case None
    then show ?thesis by (simp add: subscript_def)
  next
    case (Some ps)
    then have "(d, ps) \<in> set m" by (rule map_of_SomeD)
    with assms have "\<forall>sv\<in>set ps. length sv = 3" by (auto simp: triples_only_def)
    with Some show ?thesis by (simp add: subscript_def)
  qed
  show ?thesis
    unfolding triples_only_def push_back_profile_def
  proof (intro ballI, clarify)
    fix d' ps sv
    assume "(d', ps) \<in> set (AList.update d (subscript m d @ [[a, b, c]]) m)" and sv: "sv \<in> set ps"
    then have "(d', ps) = (d, subscript m d @ [[a, b, c]]) \<or> (d', ps) \<in> set m"
      using set_update_subset by fastforce
    then show "length sv = 3"
    proof
      assume "(d', ps) = (d, subscript m d @ [[a, b, c]])"
      with sv old show ?thesis by auto
    next
      assume "(d', ps) \<in> set m"
      with sv assms show ?thesis by (auto simp: triples_only_def)
    qed
  qed
qed

lemma triples_only_decode_dims_v2:
  "triples_only m \<Longrightarrow> triples_only (decode_dims_v2 vs m)"
  by (induction vs m rule: decode_dims_v2.induct) (simp_all add: triples_only_push_back)

lemma triples_only_decode_tensors_v2:
  "\<forall>(t, dims)\<in>set acc. triples_only dims \<Longrightarrow>
   \<forall>(t, dims)\<in>set (decode_tensors_v2 entries acc). triples_only dims"
proof (induction entries acc rule: decode_tensors_v2.induct)
  case (1 acc)
  then show ?case by simp
next
  case (2 key val rest acc)
  have new: "triples_only (decode_dims_v2 (AsTypedVector val) [])"
    by (rule triples_only_decode_dims_v2) (simp add: triples_only_def)
  have "\<forall>(t, dims)\<in>set (AList.update (c_str key) (decode_dims_v2 (AsTypedVector val) []) acc).
          triples_only dims"
  proof (intro ballI, clarify)
    fix t dims
    assume "(t, dims) \<in> set (AList.update (c_str key) (decode_dims_v2 (AsTypedVector val) []) acc)"
    then have "(t, dims) = (c_str key, decode_dims_v2 (AsTypedVector val) []) \<or> (t, dims) \<in> set acc"
      using set_update_subset by fastforce
    with new "2.prems" show "triples_only dims" by auto
  qed
  then show ?case using "2.IH" by simp
qed

lemma triples_only_DeserializeProfileV2:
  "\<forall>(t, dims)\<in>set (DeserializeProfileV2 root). triples_only dims"
  unfolding DeserializeProfileV2_def
  by (rule triples_only_decode_tensors_v2) simp

text \<open>
  C1 (amended). For every profile file that opens, CompareProfiles returns false exactly
  when the structural checks pass (same number of tensors, every stored tensor
  requested, every stored profile count equal to GetNumProfiles of the requested min
  shapes), every stored dimension index passes the range check against the requested
  min vector, and every stored (tensor, dimension, profile-index) triple equals the
  requested min, max and opt values at that dimension index. For the stored set
  {"x": {0: [(1,10,5)]}} and the request min {"x": [[1]]}, max {"x": [[10]]},
  opt {"x": [[5]]} it returns false.
\<close>

theorem CompareProfiles_false_iff:
  "(CompareProfiles profile_files file_name mn mx opt = Inr False \<longleftrightarrow>
     (\<exists>root. profile_files file_name = Some root \<and>
        same_structure mn (DeserializeProfileV2 root) \<and>
        every_stored_dim_in_range (DeserializeProfileV2 root) mn \<and>
        every_stored_triple_matches (DeserializeProfileV2 root) mn mx opt)) \<and>
   CompareProfiles (\<lambda>p. Some (FlexMap [(''x'', FlexTypedVector [0, 1, 10, 5])])) any_name
     [(''x'', [[1]])] [(''x'', [[10]])] [(''x'', [[5]])] = Inr False"
proof
  show "CompareProfiles profile_files file_name mn mx opt = Inr False \<longleftrightarrow>
     (\<exists>root. profile_files file_name = Some root \<and>
        same_structure mn (DeserializeProfileV2 root) \<and>
        every_stored_dim_in_range (DeserializeProfileV2 root) mn \<and>
        every_stored_triple_matches (DeserializeProfileV2 root) mn mx opt)"
  proof (cases "profile_files file_name")
    case None
    then show ?thesis by (simp add: CompareProfiles_def)
  next
    case (Some root)
    let ?stored = "DeserializeProfileV2 root"
    have loop: "compare_tensors_loop mn mx opt ?stored = Inr False \<longleftrightarrow>
           (\<forall>(t, dims)\<in>set ?stored.
              map_of mn t \<noteq> None \<and>
              (\<forall>(d, ps)\<in>set dims.
                 word_of_nat (length ps) = static_cast_size_t (GetNumProfiles mn) \<and>
                 dim_matches mn mx opt t d ps))"
      by (rule compare_tensors_loop_False_iff) (rule triples_only_DeserializeProfileV2)
    show ?thesis
    proof (cases "length mn = length ?stored")
      case False
      with Some show ?thesis by (simp add: CompareProfiles_def same_structure_def)
    next
      case True
      have "CompareProfiles profile_files file_name mn mx opt =
            compare_tensors_loop mn mx opt ?stored"
        using Some True by (simp add: CompareProfiles_def)
      moreover have "(\<forall>(t, dims)\<in>set ?stored.
              map_of mn t \<noteq> None \<and>
              (\<forall>(d, ps)\<in>set dims.
                 word_of_nat (length ps) = static_cast_size_t (GetNumProfiles mn) \<and>
                 dim_matches mn mx opt t d ps)) \<longleftrightarrow>
         same_structure mn ?stored \<and> every_stored_dim_in_range ?stored mn \<and>
          every_stored_triple_matches ?stored mn mx opt"
        using True
        unfolding same_structure_def every_stored_dim_in_range_def
          every_stored_triple_matches_def dim_matches_def
        by fast
      ultimately show ?thesis using loop Some by simp
    qed
  qed
next
  show "CompareProfiles (\<lambda>p. Some (FlexMap [(''x'', FlexTypedVector [0, 1, 10, 5])])) any_name
     [(''x'', [[1]])] [(''x'', [[10]])] [(''x'', [[5]])] = Inr False"
    by (simp add: CompareProfiles_def DeserializeProfileV2_def c_str_def
        push_back_profile_def subscript_def compare_profile_def fault_bind_def at_def
        GetNumProfiles_def static_cast_int_def static_cast_size_t_def)
qed

theorem CompareProfiles_false_iff_witness:
  "same_structure [(''x'', [[1]])]
     (DeserializeProfileV2 (FlexMap [(''x'', FlexTypedVector [0, 1, 10, 5])])) \<and>
   every_stored_dim_in_range
     (DeserializeProfileV2 (FlexMap [(''x'', FlexTypedVector [0, 1, 10, 5])])) [(''x'', [[1]])] \<and>
   every_stored_triple_matches
     (DeserializeProfileV2 (FlexMap [(''x'', FlexTypedVector [0, 1, 10, 5])]))
     [(''x'', [[1]])] [(''x'', [[10]])] [(''x'', [[5]])] \<and>
   CompareProfiles (\<lambda>p. Some (FlexMap [(''x'', FlexTypedVector [0, 1, 10, 5])]))
     ''model.profile'' [(''x'', [[1]])] [(''x'', [[10]])] [(''x'', [[5]])] = Inr False"
proof -
  let ?root = "FlexMap [(''x'', FlexTypedVector [0, 1, 10, 5])]"
  have stored: "DeserializeProfileV2 ?root = [(''x'', [(0, [[1, 10, 5]])])]"
    by (simp add: DeserializeProfileV2_def c_str_def push_back_profile_def subscript_def)
  have s: "same_structure [(''x'', [[1]])] (DeserializeProfileV2 ?root)"
    unfolding stored
    by (simp add: same_structure_def GetNumProfiles_def static_cast_int_def
        static_cast_size_t_def)
  have r: "every_stored_dim_in_range (DeserializeProfileV2 ?root) [(''x'', [[1]])]"
    unfolding stored
    by (simp add: every_stored_dim_in_range_def passes_range_check_def subscript_def)
  have m: "every_stored_triple_matches (DeserializeProfileV2 ?root)
     [(''x'', [[1]])] [(''x'', [[10]])] [(''x'', [[5]])]"
    unfolding stored
    by (simp add: every_stored_triple_matches_def triple_matches_def lookup_shape_def
        subscript_def)
  from s r m show ?thesis
    using CompareProfiles_false_iff [of "\<lambda>p. Some ?root" "''model.profile''"
        "[(''x'', [[1]])]" "[(''x'', [[10]])]" "[(''x'', [[5]])]"]
    by blast
qed

text \<open>
  C1 (as stated) fails: with the stored set {"x": {0: [(1,10,5)]}} and a request for
  two tensors "x" and "y" whose "x" entries are min 1, max 10, opt 5, every stored
  triple matches the request, yet CompareProfiles does not return false: the numbers
  of tensors differ and it returns true.
\<close>

theorem CompareProfiles_matching_triples_counterexample:
  "\<not> (CompareProfiles (\<lambda>p. Some (FlexMap [(''x'', FlexTypedVector [0, 1, 10, 5])]))
         ''model.profile''
         [(''x'', [[1]]), (''y'', [[2]])] [(''x'', [[10]]), (''y'', [[20]])]
         [(''x'', [[5]]), (''y'', [[7]])] = Inr False \<longleftrightarrow>
       every_stored_triple_matches
         (DeserializeProfileV2 (FlexMap [(''x'', FlexTypedVector [0, 1, 10, 5])]))
         [(''x'', [[1]]), (''y'', [[2]])] [(''x'', [[10]]), (''y'', [[20]])]
         [(''x'', [[5]]), (''y'', [[7]])])"
proof -
  let ?root = "FlexMap [(''x'', FlexTypedVector [0, 1, 10, 5])]"
  have stored: "DeserializeProfileV2 ?root = [(''x'', [(0, [[1, 10, 5]])])]"
    by (simp add: DeserializeProfileV2_def c_str_def push_back_profile_def subscript_def)
  have "every_stored_triple_matches (DeserializeProfileV2 ?root)
         [(''x'', [[1]]), (''y'', [[2]])] [(''x'', [[10]]), (''y'', [[20]])]
         [(''x'', [[5]]), (''y'', [[7]])]"
    unfolding stored
    by (simp add: every_stored_triple_matches_def triple_matches_def lookup_shape_def
        subscript_def)
  moreover have "CompareProfiles (\<lambda>p. Some ?root) ''model.profile''
         [(''x'', [[1]]), (''y'', [[2]])] [(''x'', [[10]]), (''y'', [[20]])]
         [(''x'', [[5]]), (''y'', [[7]])] = Inr True"
    by (simp add: CompareProfiles_def stored)
  ultimately show ?thesis by simp
qed

text \<open>
  C3 (failing input). The request min {"x": [[1]]}, max {"x": [[1]], "y": [[2]]},
  opt {"x": [[1]], "y": [[2]]} has different key sets for min and max, and
  ValidateProfileShapes returns true on it: the size test only rejects three pairwise
  different sizes, and the loop only visits the keys of min.
\<close>

theorem ValidateProfileShapes_accepts_different_key_sets:
  "ValidateProfileShapes [(''x'', [[1]])] [(''x'', [[1]]), (''y'', [[2]])]
     [(''x'', [[1]]), (''y'', [[2]])] = True \<and>
   \<not> same_keys [(''x'', [[1]])] [(''x'', [[1]]), (''y'', [[2]])]"
  by (simp add: ValidateProfileShapes_def subscript_def same_keys_def)

text \<open>
  C10 (failing input). The request min {"x": [[1,2]]}, max {"x": [[10]]},
  opt {"x": [[5]]} passes ValidateProfileShapes and has no empty min vector. With the
  stored set {"x": {1: [(2,20,7)]}}, dimension index 1 passes the range check against
  the min vector of length 2, the min value matches, and the read of the max vector
  at index 1 is past its end.
\<close>

theorem CompareProfiles_reads_max_past_end:
  "ValidateProfileShapes [(''x'', [[1, 2]])] [(''x'', [[10]])] [(''x'', [[5]])] \<and>
   shape_vectors_nonempty [(''x'', [[1, 2]])] \<and>
   CompareProfiles (\<lambda>p. Some (FlexMap [(''x'', FlexTypedVector [1, 2, 20, 7])]))
     ''model.profile'' [(''x'', [[1, 2]])] [(''x'', [[10]])] [(''x'', [[5]])]
     = Inl VectorIndexPastEnd"
  by (simp add: ValidateProfileShapes_def shape_vectors_nonempty_def
      CompareProfiles_def DeserializeProfileV2_def c_str_def
      push_back_profile_def subscript_def compare_profile_def fault_bind_def at_def
      GetNumProfiles_def static_cast_int_def static_cast_size_t_def)

section \<open>The profile codec\<close>

lemma encode_profile_triple:
  "length shape = 3 \<Longrightarrow> encode_profile dim shape = Inr [dim, shape ! 0, shape ! 1, shape ! 2]"
  by (simp add: encode_profile_def fault_bind_def at_def)

lemma encode_profiles_triples:
  "\<forall>shape\<in>set profiles. length shape = 3 \<Longrightarrow>
   encode_profiles dim profiles =
     Inr (concat (map (\<lambda>shape. [dim, shape ! 0, shape ! 1, shape ! 2]) profiles))"
  by (induction profiles) (simp_all add: encode_profile_triple fault_bind_def)

lemma encode_dims_triples:
  "triples_only dims \<Longrightarrow> encode_dims dims = Inr (encoded_dims dims)"
proof (induction dims)
  case Nil
  then show ?case by simp
next
  case (Cons p dims)
  obtain d ps where p: "p = (d, ps)" by (cases p)
  from Cons.prems have "\<forall>shape\<in>set ps. length shape = 3" and "triples_only dims"
    by (simp_all add: triples_only_def p)
  with Cons.IH show ?case
    by (simp add: p encode_profiles_triples fault_bind_def)
qed

lemma length_3_cases: "length shape = 3 \<Longrightarrow> \<exists>a b c. shape = [a, b, c]"
  by (auto simp: length_Suc_conv numeral_3_eq_3)

lemma subscript_update_same: "subscript (AList.update k v m) k = v"
  by (simp add: subscript_def update_conv')

lemma decode_profiles_of_dim:
  "\<forall>shape\<in>set (p # ps). length shape = 3 \<Longrightarrow>
   decode_dims_v2 (concat (map (\<lambda>shape. [d, shape ! 0, shape ! 1, shape ! 2]) (p # ps)) @ tail_values) m =
   decode_dims_v2 tail_values (AList.update d (subscript m d @ p # ps) m)"
proof (induction ps arbitrary: p m)
  case Nil
  then obtain a b c where "p = [a, b, c]" using length_3_cases [of p] by auto
  then show ?case by (simp add: push_back_profile_def)
next
  case (Cons q ps)
  have p3: "length p = 3" and rest: "\<forall>shape\<in>set (q # ps). length shape = 3"
    using Cons.prems by simp_all
  obtain a b c where p: "p = [a, b, c]" using length_3_cases [OF p3] by auto
  have "decode_dims_v2 (concat (map (\<lambda>shape. [d, shape ! 0, shape ! 1, shape ! 2]) (p # q # ps)) @ tail_values) m =
        decode_dims_v2 (concat (map (\<lambda>shape. [d, shape ! 0, shape ! 1, shape ! 2]) (q # ps)) @ tail_values)
          (push_back_profile d p m)"
    by (simp add: p)
  also have "\<dots> = decode_dims_v2 tail_values
      (AList.update d (subscript (push_back_profile d p m) d @ q # ps) (push_back_profile d p m))"
    by (rule Cons.IH [OF rest])
  also have "\<dots> = decode_dims_v2 tail_values (AList.update d (subscript m d @ p # q # ps) m)"
    by (simp add: push_back_profile_def subscript_update_same)
  finally show ?case .
qed

lemma subscript_absent: "k \<notin> fst ` set m \<Longrightarrow> subscript m k = []"
  by (cases "map_of m k") (auto simp: subscript_def dest: map_of_SomeD intro: rev_image_eqI)

lemma decode_encoded_dims:
  assumes "triples_only dims" and "distinct (map fst dims)"
    and "\<forall>(d, ps)\<in>set dims. ps \<noteq> []"
    and "fst ` set dims \<inter> fst ` set m = {}"
  shows "map_of (decode_dims_v2 (encoded_dims dims) m) = map_of m ++ map_of dims"
  using assms
proof (induction dims arbitrary: m)
  case Nil
  then show ?case by simp
next
  case (Cons e dims)
  obtain d ps where e: "e = (d, ps)" by (cases e)
  from Cons.prems e obtain p ps' where ps: "ps = p # ps'" by (cases ps) auto
  have t: "\<forall>shape\<in>set (p # ps'). length shape = 3" and t': "triples_only dims"
    using Cons.prems(1) by (simp_all add: triples_only_def e ps)
  have dist: "distinct (map fst dims)" and dnew: "d \<notin> fst ` set dims"
    using Cons.prems(2) by (simp_all add: e)
  have ne: "\<forall>(d, ps)\<in>set dims. ps \<noteq> []" using Cons.prems(3) by simp
  have dm: "d \<notin> fst ` set m" and disj: "fst ` set dims \<inter> fst ` set m = {}"
    using Cons.prems(4) by (auto simp: e)
  let ?m' = "AList.update d ps m"
  have disj': "fst ` set dims \<inter> fst ` set ?m' = {}"
    using disj dnew by (auto simp: dom_update)
  have "decode_dims_v2 (encoded_dims (e # dims)) m = decode_dims_v2 (encoded_dims dims) ?m'"
    using decode_profiles_of_dim [OF t, of d "encoded_dims dims" m] subscript_absent [OF dm]
    by (simp add: e ps)
  then have "map_of (decode_dims_v2 (encoded_dims (e # dims)) m) = map_of ?m' ++ map_of dims"
    using Cons.IH [OF t' dist ne disj'] by simp
  also have "\<dots> = map_of m ++ map_of (e # dims)"
  proof -
    have "map_of dims d = None" using dnew by (simp add: map_of_eq_None_iff)
    then show ?thesis
      by (auto simp: e update_conv' map_add_def fun_eq_iff split: option.splits)
  qed
  finally show ?case .
qed

lemma map_of_decode_tensors_v2:
  "map_of (decode_tensors_v2 entries acc) =
   map_of acc ++ map_of (rev (map (\<lambda>(key, val). (c_str key, decode_dims_v2 (AsTypedVector val) [])) entries))"
proof (induction entries acc rule: decode_tensors_v2.induct)
  case (1 acc)
  then show ?case by simp
next
  case (2 key val rest acc)
  then show ?case
    by (simp add: update_conv' map_add_def fun_eq_iff split: option.splits)
qed

lemma distinct_decode_tensors_v2:
  "distinct (map fst acc) \<Longrightarrow> distinct (map fst (decode_tensors_v2 entries acc))"
  by (induction entries acc rule: decode_tensors_v2.induct) (simp_all add: distinct_update)


lemma encode_tensors_triples:
  "\<forall>(t, dims)\<in>set x. triples_only dims \<Longrightarrow>
   encode_tensors x =
     Inr (map (\<lambda>(t, dims). (c_str t, FlexTypedVector (encoded_dims dims))) x)"
proof (induction x)
  case Nil
  then show ?case by simp
next
  case (Cons e x)
  obtain t dims where e: "e = (t, dims)" by (cases e)
  from Cons.prems have "triples_only dims" and "\<forall>(t, dims)\<in>set x. triples_only dims"
    by (simp_all add: e)
  with Cons.IH show ?case
    by (simp add: e encode_dims_triples fault_bind_def)
qed

lemma as_map_conv: "as_map x = map_option map_of \<circ> map_of x"
  unfolding as_map_def by (rule map_of_map)

text \<open>
  C2 (amended). For every well-formed ShapeProfileSet with profile count at least 1
  whose tensor names contain no NUL byte, SerializeProfileV2 produces a buffer, and
  DeserializeProfileV2 of that buffer is the same map of maps as the input (equality
  up to iteration order).
\<close>

theorem SerializeProfileV2_roundtrip:
  assumes wf: "well_formed_shape_ranges x profile_count" and cs: "c_string_names x"
    and pc: "1 \<le> profile_count"
  shows "\<exists>root. SerializeProfileV2 x = Inr root \<and>
           distinct (map fst (DeserializeProfileV2 root)) \<and>
           as_map (DeserializeProfileV2 root) = as_map x"
proof -
  define enc where "enc = (\<lambda>(t :: string, dims). (c_str t, FlexTypedVector (encoded_dims dims)))"
  define g where "g = (\<lambda>(key :: string, val). (c_str key, decode_dims_v2 (AsTypedVector val) []))"
  define f where "f = (\<lambda>dims. decode_dims_v2 (encoded_dims dims) [])"
  define h where "h = (\<lambda>(t :: string, dims). (t, f dims))"
  define entries where "entries = map enc x"
  define root where "root = FlexMap (sort_key fst entries)"
  have dx: "distinct (map fst x)"
    using wf by (simp add: well_formed_shape_ranges_def)
  have el: "\<And>t dims. (t, dims) \<in> set x \<Longrightarrow>
      c_str t = t \<and> distinct (map fst dims) \<and> triples_only dims \<and> (\<forall>(d, ps)\<in>set dims. ps \<noteq> [])"
    using wf cs pc
    unfolding well_formed_shape_ranges_def c_string_names_def triples_only_def list_all_iff
    by fastforce
  have "\<forall>(t, dims)\<in>set x. triples_only dims"
    using el by blast
  then have "encode_tensors x = Inr entries"
    unfolding entries_def enc_def by (rule encode_tensors_triples)
  then have ser: "SerializeProfileV2 x = Inr root"
    by (simp add: SerializeProfileV2_def fault_bind_def root_def)
  have gh: "\<And>e. e \<in> set x \<Longrightarrow> g (enc e) = h e"
    using el by (auto simp: g_def enc_def h_def f_def)
  let ?L = "map g (sort_key fst entries)"
  let ?R = "map h x"
  have "set ?L = (\<lambda>e. g (enc e)) ` set x"
    by (simp add: entries_def image_image)
  also have "\<dots> = h ` set x"
    using gh by (rule image_cong [OF refl])
  finally have setL: "set ?L = set ?R"
    by simp
  have fstR: "map (fst \<circ> h) x = map fst x"
    by (auto simp: h_def)
  have "map (fst \<circ> g) entries = map (fst \<circ> h) x"
    using gh by (simp add: entries_def)
  then have "distinct (map (fst \<circ> g) entries)"
    using dx fstR by simp
  then have "distinct entries" and "inj_on (fst \<circ> g) (set entries)"
    by (simp_all add: distinct_map)
  then have dL: "distinct (map fst (rev ?L))"
    by (simp add: distinct_map rev_map [symmetric])
  have dR: "distinct (map fst ?R)"
    by (simp only: map_map fstR dx)
  have "map_of (rev ?L) = map_of ?R"
    using map_of_inject_set [OF dL dR] setL by simp
  then have res: "map_of (DeserializeProfileV2 root) = map_of ?R"
    by (simp add: DeserializeProfileV2_def root_def map_of_decode_tensors_v2 g_def)
  have "map_of ?R = map_option f \<circ> map_of x"
    unfolding h_def by (rule map_of_map)
  with res have "as_map (DeserializeProfileV2 root) = map_option (map_of \<circ> f) \<circ> map_of x"
    by (simp add: as_map_conv fun_eq_iff option.map_comp)
  also have "\<dots> = as_map x"
  proof
    fix t
    show "(map_option (map_of \<circ> f) \<circ> map_of x) t = as_map x t"
    proof (cases "map_of x t")
      case None
      then show ?thesis by (simp add: as_map_conv)
    next
      case (Some dims)
      then have "(t, dims) \<in> set x" by (rule map_of_SomeD)
      then have "map_of (f dims) = map_of dims"
        using el [of t dims] decode_encoded_dims [of dims "[]"] by (simp add: f_def)
      with Some show ?thesis by (simp add: as_map_conv)
    qed
  qed
  finally have eq: "as_map (DeserializeProfileV2 root) = as_map x" .
  have "distinct (map fst (DeserializeProfileV2 root))"
    unfolding DeserializeProfileV2_def by (rule distinct_decode_tensors_v2) simp
  with ser eq show ?thesis by blast
qed

theorem SerializeProfileV2_roundtrip_witness:
  "well_formed_shape_ranges
     [(''b'', [(0, [[1, 10, 5], [2, 20, 6]]), (2, [[3, 30, 7], [4, 40, 8]])]),
      (''a'', [(1, [[1, 1, 1], [2, 2, 2]])])] 2 \<and>
   c_string_names
     [(''b'', [(0, [[1, 10, 5], [2, 20, 6]]), (2, [[3, 30, 7], [4, 40, 8]])]),
      (''a'', [(1, [[1, 1, 1], [2, 2, 2]])])] \<and>
   (1::nat) \<le> 2 \<and>
   (\<exists>root. SerializeProfileV2
       [(''b'', [(0, [[1, 10, 5], [2, 20, 6]]), (2, [[3, 30, 7], [4, 40, 8]])]),
        (''a'', [(1, [[1, 1, 1], [2, 2, 2]])])] = Inr root \<and>
      distinct (map fst (DeserializeProfileV2 root)) \<and>
      as_map (DeserializeProfileV2 root) =
      as_map [(''b'', [(0, [[1, 10, 5], [2, 20, 6]]), (2, [[3, 30, 7], [4, 40, 8]])]),
              (''a'', [(1, [[1, 1, 1], [2, 2, 2]])])])"
proof -
  have wf: "well_formed_shape_ranges
     [(''b'', [(0, [[1, 10, 5], [2, 20, 6]]), (2, [[3, 30, 7], [4, 40, 8]])]),
      (''a'', [(1, [[1, 1, 1], [2, 2, 2]])])] 2"
    by (simp add: well_formed_shape_ranges_def)
  have cs: "c_string_names
     [(''b'', [(0, [[1, 10, 5], [2, 20, 6]]), (2, [[3, 30, 7], [4, 40, 8]])]),
      (''a'', [(1, [[1, 1, 1], [2, 2, 2]])])]"
    by (simp add: c_string_names_def c_str_def)
  have pc: "(1::nat) \<le> 2" by simp
  from wf cs pc SerializeProfileV2_roundtrip [OF wf cs pc] show ?thesis by blast
qed

text \<open>
  C2 (as stated) fails: the set with the single tensor name a, NUL, b, one dimension
  and one profile is well-formed with profile count 1, but the builder receives the
  name through \<open>c_str()\<close>, the buffer holds the key "a", and the decoded set has the
  tensor "a" and not the tensor of the input.
\<close>

theorem SerializeProfileV2_nul_name_counterexample:
  "well_formed_shape_ranges [([CHR ''a'', CHR 0x00, CHR ''b''], [(0, [[1, 10, 5]])])] 1 \<and>
   SerializeProfileV2 [([CHR ''a'', CHR 0x00, CHR ''b''], [(0, [[1, 10, 5]])])] =
     Inr (FlexMap [(''a'', FlexTypedVector [0, 1, 10, 5])]) \<and>
   DeserializeProfileV2 (FlexMap [(''a'', FlexTypedVector [0, 1, 10, 5])]) =
     [(''a'', [(0, [[1, 10, 5]])])] \<and>
   as_map [(''a'', [(0, [[1, 10, 5]])])] \<noteq>
     as_map [([CHR ''a'', CHR 0x00, CHR ''b''], [(0, [[1, 10, 5]])])]"
proof -
  have wf: "well_formed_shape_ranges
      [([CHR ''a'', CHR 0x00, CHR ''b''], [(0, [[1, 10, 5]])])] 1"
    by (simp add: well_formed_shape_ranges_def)
  have ser: "SerializeProfileV2 [([CHR ''a'', CHR 0x00, CHR ''b''], [(0, [[1, 10, 5]])])] =
     Inr (FlexMap [(''a'', FlexTypedVector [0, 1, 10, 5])])"
    by (simp add: SerializeProfileV2_def fault_bind_def encode_profile_def at_def c_str_def)
  have de: "DeserializeProfileV2 (FlexMap [(''a'', FlexTypedVector [0, 1, 10, 5])]) =
     [(''a'', [(0, [[1, 10, 5]])])]"
    by (simp add: DeserializeProfileV2_def c_str_def push_back_profile_def subscript_def)
  have "as_map [(''a'', [(0, [[1, 10, 5 :: int64_t]])])] ''a'' \<noteq>
        as_map [([CHR ''a'', CHR 0x00, CHR ''b''], [(0, [[1, 10, 5]])])] ''a''"
    by (simp add: as_map_def)
  then have "as_map [(''a'', [(0, [[1, 10, 5 :: int64_t]])])] \<noteq>
        as_map [([CHR ''a'', CHR 0x00, CHR ''b''], [(0, [[1, 10, 5]])])]"
    by metis
  with wf ser de show ?thesis by blast
qed

lemma decode_dims_v2_whole_groups:
  "decode_dims_v2 vs m = decode_dims_v2 (whole_groups 4 vs) m"
proof (induction vs m rule: decode_dims_v2.induct)
  case (1 dim mn mx opt rest inner_map)
  have "4 * ((4 + length rest) div 4) = Suc (Suc (Suc (Suc (4 * (length rest div 4)))))"
    by presburger
  then have "whole_groups 4 (dim # mn # mx # opt # rest) = dim # mn # mx # opt # whole_groups 4 rest"
    by (simp add: whole_groups_def)
  with 1 show ?case by simp
qed (simp_all add: whole_groups_def)

lemma decode_dims_legacy_whole_groups:
  "decode_dims_legacy vs m = decode_dims_legacy (whole_groups 3 vs) m"
proof (induction vs m rule: decode_dims_legacy.induct)
  case (1 dim mn mx rest inner_map)
  have "3 * ((3 + length rest) div 3) = Suc (Suc (Suc (3 * (length rest div 3))))"
    by presburger
  then have "whole_groups 3 (dim # mn # mx # rest) = dim # mn # mx # whole_groups 3 rest"
    by (simp add: whole_groups_def)
  with 1 show ?case by simp
qed (simp_all add: whole_groups_def)

lemma AsTypedVector_cut_value: "AsTypedVector (cut_value n val) = whole_groups n (AsTypedVector val)"
  by (cases val) (simp_all add: whole_groups_def)

lemma decode_tensors_v2_cut:
  "decode_tensors_v2 (map (\<lambda>(key, val). (key, cut_value 4 val)) entries) acc =
   decode_tensors_v2 entries acc"
proof (induction entries acc rule: decode_tensors_v2.induct)
  case (1 acc)
  then show ?case by simp
next
  case (2 key val rest acc)
  then show ?case
    using decode_dims_v2_whole_groups [of "AsTypedVector val" "[]"]
    by (simp add: AsTypedVector_cut_value)
qed

lemma decode_tensors_legacy_cut:
  "decode_tensors_legacy (map (\<lambda>(key, val). (key, cut_value 3 val)) entries) acc =
   decode_tensors_legacy entries acc"
proof (induction entries acc rule: decode_tensors_legacy.induct)
  case (1 acc)
  then show ?case by simp
next
  case (2 key val rest acc)
  then show ?case
    using decode_dims_legacy_whole_groups [of "AsTypedVector val" "[]"]
    by (simp add: AsTypedVector_cut_value)
qed

lemma complete_groups_short: "length vs < n \<Longrightarrow> complete_groups n vs = []"
  by (simp add: complete_groups_def)

lemma complete_groups_4_step:
  "complete_groups 4 (a # b # c # d # rest) = [a, b, c, d] # complete_groups 4 rest"
proof -
  have n: "length (a # b # c # d # rest) div 4 = Suc (length rest div 4)"
    by simp
  have shift: "take 4 (drop (4 * Suc k) (a # b # c # d # rest)) = take 4 (drop (4 * k) rest)" for k
  proof -
    have "4 * Suc k = Suc (Suc (Suc (Suc (4 * k))))" by simp
    then show ?thesis by (simp only: drop_Suc_Cons)
  qed
  have "complete_groups 4 (a # b # c # d # rest) =
        map (\<lambda>k. take 4 (drop (4 * k) (a # b # c # d # rest))) (0 # map Suc [0..<length rest div 4])"
    unfolding complete_groups_def n by (simp only: upt_conv_Cons [of 0] map_Suc_upt zero_less_Suc)
  also have "\<dots> = [a, b, c, d] # complete_groups 4 rest"
    by (simp add: complete_groups_def shift o_def del: mult_Suc_right)
  finally show ?thesis .
qed

lemma complete_groups_3_step:
  "complete_groups 3 (a # b # c # rest) = [a, b, c] # complete_groups 3 rest"
proof -
  have n: "length (a # b # c # rest) div 3 = Suc (length rest div 3)"
    by simp
  have shift: "take 3 (drop (3 * Suc k) (a # b # c # rest)) = take 3 (drop (3 * k) rest)" for k
  proof -
    have "3 * Suc k = Suc (Suc (Suc (3 * k)))" by simp
    then show ?thesis by (simp only: drop_Suc_Cons)
  qed
  have "complete_groups 3 (a # b # c # rest) =
        map (\<lambda>k. take 3 (drop (3 * k) (a # b # c # rest))) (0 # map Suc [0..<length rest div 3])"
    unfolding complete_groups_def n by (simp only: upt_conv_Cons [of 0] map_Suc_upt zero_less_Suc)
  also have "\<dots> = [a, b, c] # complete_groups 3 rest"
    by (simp add: complete_groups_def shift o_def del: mult_Suc_right)
  finally show ?thesis .
qed

lemma map_of_push_back_profile:
  "map_of (push_back_profile k v m) k' =
     (if k' = k then Some (subscript m k @ [v]) else map_of m k')"
  by (simp add: push_back_profile_def update_conv')

lemma subscript_push_back_profile:
  "subscript (push_back_profile k v m) k' =
     (if k' = k then subscript m k @ [v] else subscript m k')"
  by (simp add: push_back_profile_def subscript_def update_conv')

lemma map_of_decode_dims_v2:
  "map_of (decode_dims_v2 vs m) d =
     (if profiles_of_dim vs d = [] then map_of m d
      else Some (subscript m d @ profiles_of_dim vs d))"
proof (induction vs m rule: decode_dims_v2.induct)
  case (1 dim mn mx opt rest inner_map)
  have p: "profiles_of_dim (dim # mn # mx # opt # rest) d =
        (if dim = d then [[mn, mx, opt]] else []) @ profiles_of_dim rest d"
    by (simp add: profiles_of_dim_def complete_groups_4_step)
  show ?case
    using 1 by (simp add: p map_of_push_back_profile subscript_push_back_profile)
qed (simp_all add: profiles_of_dim_def complete_groups_short)

lemma map_of_decode_dims_legacy:
  "map_of (decode_dims_legacy vs m) d =
     (case range_of_dim vs d of None \<Rightarrow> map_of m d | Some r \<Rightarrow> Some r)"
proof (induction vs m rule: decode_dims_legacy.induct)
  case (1 dim mn mx rest inner_map)
  have r: "range_of_dim (dim # mn # mx # rest) d =
        (case range_of_dim rest d of
           None \<Rightarrow> if dim = d then Some (mn, mx) else None
         | Some r \<Rightarrow> Some r)"
    by (simp add: range_of_dim_def complete_groups_3_step Let_def)
  show ?case
    using 1 by (simp add: r update_conv' split: option.splits)
qed (simp_all add: range_of_dim_def complete_groups_short)


lemma map_of_decode_tensors_legacy:
  "map_of (decode_tensors_legacy entries acc) =
   map_of acc ++
   map_of (rev (map (\<lambda>(key, val). (c_str key, decode_dims_legacy (AsTypedVector val) [])) entries))"
proof (induction entries acc rule: decode_tensors_legacy.induct)
  case (1 acc)
  then show ?case by simp
next
  case (2 key val rest acc)
  then show ?case
    by (simp add: update_conv' map_add_def fun_eq_iff split: option.splits)
qed

lemma map_of_rev_decoded:
  "map_of (rev (map (\<lambda>(key, val). (c_str key, f (AsTypedVector val))) entries)) t =
   map_option f (stored_vector entries t)"
proof -
  have "map (\<lambda>(key, val). (c_str key, f (AsTypedVector val))) entries =
        map (\<lambda>(k, v). (k, f (AsTypedVector v))) (map (\<lambda>(key, val). (c_str key, val)) entries)"
    by (simp add: case_prod_unfold)
  then have "rev (map (\<lambda>(key, val). (c_str key, f (AsTypedVector val))) entries) =
        map (\<lambda>(k, v). (k, f (AsTypedVector v))) (rev (map (\<lambda>(key, val). (c_str key, val)) entries))"
    by (simp only: rev_map)
  then show ?thesis
    by (simp only: map_of_map stored_vector_def o_def option.map_comp)
qed

lemma DeserializeProfileV2_tensor:
  "map_of (DeserializeProfileV2 (FlexMap entries)) t =
   map_option (\<lambda>vs. decode_dims_v2 vs []) (stored_vector entries t)"
  using map_of_rev_decoded [of "\<lambda>vs. decode_dims_v2 vs []" entries t]
  by (simp add: DeserializeProfileV2_def map_of_decode_tensors_v2)

lemma DeserializeProfile_tensor:
  "map_of (DeserializeProfile (FlexMap entries)) t =
   map_option (\<lambda>vs. decode_dims_legacy vs []) (stored_vector entries t)"
  using map_of_rev_decoded [of "\<lambda>vs. decode_dims_legacy vs []" entries t]
  by (simp add: DeserializeProfile_def map_of_decode_tensors_legacy)

text \<open>
  C4 (amended). For every buffer that FlexBuffers reads as a value, a flat value
  sequence whose length is not a multiple of 4 (current format, DeserializeProfileV2)
  or of 3 (legacy format, DeserializeProfile), and a root container that is not a
  map, do not make the decode fail. A tensor's flat value sequence is decoded from
  its leading complete groups and the values after the last complete group are
  ignored: in the current format every dimension index gets the [min, max, opt]
  triples of the groups of four that carry it, in order, in the legacy format the
  (min, max) pair of the last group of three that carries it. A root container that
  is not a map decodes to the empty profile set. Reading the bytes of the file is not
  part of the statement.
\<close>

theorem decoders_ignore_malformed_input:
  "(\<not> is_FlexMap root \<longrightarrow> DeserializeProfileV2 root = [] \<and> DeserializeProfile root = []) \<and>
   (\<forall>entries tensor_name. root = FlexMap entries \<longrightarrow>
      (case stored_vector entries tensor_name of
         None \<Rightarrow>
           map_of (DeserializeProfileV2 root) tensor_name = None \<and>
           map_of (DeserializeProfile root) tensor_name = None
       | Some vs \<Rightarrow>
           (\<exists>dims. map_of (DeserializeProfileV2 root) tensor_name = Some dims \<and>
              (\<forall>dim. map_of dims dim =
                 (if profiles_of_dim vs dim = [] then None else Some (profiles_of_dim vs dim)))) \<and>
           (\<exists>ranges. map_of (DeserializeProfile root) tensor_name = Some ranges \<and>
              (\<forall>dim. map_of ranges dim = range_of_dim vs dim)))) \<and>
   DeserializeProfileV2 root = DeserializeProfileV2 (cut_trailing_values 4 root) \<and>
   DeserializeProfile root = DeserializeProfile (cut_trailing_values 3 root)"
proof (intro conjI allI impI)
  assume "\<not> is_FlexMap root"
  then show "DeserializeProfileV2 root = []" and "DeserializeProfile root = []"
    by (cases root; simp add: DeserializeProfileV2_def DeserializeProfile_def)+
next
  fix entries tensor_name
  assume root: "root = FlexMap entries"
  show "case stored_vector entries tensor_name of
         None \<Rightarrow>
           map_of (DeserializeProfileV2 root) tensor_name = None \<and>
           map_of (DeserializeProfile root) tensor_name = None
       | Some vs \<Rightarrow>
           (\<exists>dims. map_of (DeserializeProfileV2 root) tensor_name = Some dims \<and>
              (\<forall>dim. map_of dims dim =
                 (if profiles_of_dim vs dim = [] then None else Some (profiles_of_dim vs dim)))) \<and>
           (\<exists>ranges. map_of (DeserializeProfile root) tensor_name = Some ranges \<and>
              (\<forall>dim. map_of ranges dim = range_of_dim vs dim))"
  proof (cases "stored_vector entries tensor_name")
    case None
    then show ?thesis
      by (simp add: root DeserializeProfileV2_tensor DeserializeProfile_tensor)
  next
    case (Some vs)
    have v2: "\<forall>dim. map_of (decode_dims_v2 vs []) dim =
        (if profiles_of_dim vs dim = [] then None else Some (profiles_of_dim vs dim))"
      by (simp add: map_of_decode_dims_v2 subscript_def)
    have legacy: "\<forall>dim. map_of (decode_dims_legacy vs []) dim = range_of_dim vs dim"
      by (simp add: map_of_decode_dims_legacy split: option.splits)
    from Some v2 legacy show ?thesis
      by (simp add: root DeserializeProfileV2_tensor DeserializeProfile_tensor)
  qed
next
  show "DeserializeProfileV2 root = DeserializeProfileV2 (cut_trailing_values 4 root)"
    by (cases root) (simp_all add: DeserializeProfileV2_def decode_tensors_v2_cut)
  show "DeserializeProfile root = DeserializeProfile (cut_trailing_values 3 root)"
    by (cases root) (simp_all add: DeserializeProfile_def decode_tensors_legacy_cut)
qed

theorem decoders_ignore_malformed_input_witness:
  "\<not> is_FlexMap (FlexInt 7) \<and>
   DeserializeProfileV2 (FlexInt 7) = [] \<and> DeserializeProfile (FlexInt 7) = [] \<and>
   stored_vector [(''x'', FlexTypedVector [0, 1, 10, 5, 7])] ''x'' = Some [0, 1, 10, 5, 7] \<and>
   (\<exists>dims. map_of (DeserializeProfileV2 (FlexMap [(''x'', FlexTypedVector [0, 1, 10, 5, 7])])) ''x''
        = Some dims \<and>
      map_of dims 0 = Some [[1, 10, 5]] \<and> map_of dims 7 = None) \<and>
   (\<exists>ranges. map_of (DeserializeProfile (FlexMap [(''x'', FlexTypedVector [0, 1, 10, 5, 7])])) ''x''
        = Some ranges \<and>
      map_of ranges 0 = Some (1, 10) \<and> map_of ranges 5 = None)"
proof -
  let ?entries = "[(''x'', FlexTypedVector [0, 1, 10, 5, 7])]"
  have nm: "\<not> is_FlexMap (FlexInt 7)" by simp
  have sv: "stored_vector ?entries ''x'' = Some [0, 1, 10, 5, 7]"
    by (simp add: stored_vector_def c_str_def)
  have g4: "complete_groups 4 [0, 1, 10, 5, 7 :: int64_t] = [[0, 1, 10, 5]]"
    by (simp add: complete_groups_def)
  have g3: "complete_groups 3 [0, 1, 10, 5, 7 :: int64_t] = [[0, 1, 10]]"
    by (simp add: complete_groups_def)
  have p0: "profiles_of_dim [0, 1, 10, 5, 7] 0 = [[1, 10, 5]]"
    and p7: "profiles_of_dim [0, 1, 10, 5, 7] 7 = []"
    by (simp_all add: profiles_of_dim_def g4)
  have r0: "range_of_dim [0, 1, 10, 5, 7] 0 = Some (1, 10)"
    and r5: "range_of_dim [0, 1, 10, 5, 7] 5 = None"
    by (simp_all add: range_of_dim_def g3)
  have empty: "DeserializeProfileV2 (FlexInt 7) = [] \<and> DeserializeProfile (FlexInt 7) = []"
    using decoders_ignore_malformed_input [of "FlexInt 7"] nm by blast
  have "(\<exists>dims. map_of (DeserializeProfileV2 (FlexMap ?entries)) ''x'' = Some dims \<and>
              (\<forall>dim. map_of dims dim =
                 (if profiles_of_dim [0, 1, 10, 5, 7] dim = [] then None
                  else Some (profiles_of_dim [0, 1, 10, 5, 7] dim)))) \<and>
        (\<exists>ranges. map_of (DeserializeProfile (FlexMap ?entries)) ''x'' = Some ranges \<and>
              (\<forall>dim. map_of ranges dim = range_of_dim [0, 1, 10, 5, 7] dim))"
    using decoders_ignore_malformed_input [of "FlexMap ?entries", THEN conjunct2,
        THEN conjunct1, rule_format, OF refl, of "''x''"]
    unfolding sv by (simp only: option.case)
  then obtain dims ranges where
    d: "map_of (DeserializeProfileV2 (FlexMap ?entries)) ''x'' = Some dims"
      "\<forall>dim. map_of dims dim =
                 (if profiles_of_dim [0, 1, 10, 5, 7] dim = [] then None
                  else Some (profiles_of_dim [0, 1, 10, 5, 7] dim))" and
    r: "map_of (DeserializeProfile (FlexMap ?entries)) ''x'' = Some ranges"
      "\<forall>dim. map_of ranges dim = range_of_dim [0, 1, 10, 5, 7] dim"
    by blast
  from d(2) p0 p7 have "map_of dims 0 = Some [[1, 10, 5]]" and "map_of dims 7 = None"
    by simp_all
  moreover from r(2) r0 r5 have "map_of ranges 0 = Some (1, 10)" and "map_of ranges 5 = None"
    by simp_all
  ultimately show ?thesis using nm empty sv d(1) r(1) by blast
qed

text \<open>
  C4 (as stated) fails: a current-format sequence of 5 values, a legacy sequence of 4
  values and a root that is an integer are all decoded to ordinary profile sets. The
  decoding loops neither throw nor return an error on them.
\<close>

theorem decoders_return_on_malformed_input_counterexample:
  "length [0, 1, 10, 5, 7 :: int64_t] mod 4 \<noteq> 0 \<and>
   DeserializeProfileV2 (FlexMap [(''x'', FlexTypedVector [0, 1, 10, 5, 7])]) =
     [(''x'', [(0, [[1, 10, 5]])])] \<and>
   length [0, 1, 10, 5 :: int64_t] mod 3 \<noteq> 0 \<and>
   DeserializeProfile (FlexMap [(''x'', FlexTypedVector [0, 1, 10, 5])]) =
     [(''x'', [(0, (1, 10))])] \<and>
   \<not> is_FlexMap (FlexInt 7) \<and>
   DeserializeProfileV2 (FlexInt 7) = [] \<and> DeserializeProfile (FlexInt 7) = []"
  by (simp add: DeserializeProfileV2_def DeserializeProfile_def c_str_def
      push_back_profile_def subscript_def)

section \<open>The file-name step of TRTGenerateId\<close>

lemma repeat_loop_result:
  assumes "0 < length name" and "0 < i"
  shows "repeat_loop i name acc =
         Some (acc @ concat (replicate (if i < 500 then (499 - i) div length name + 1 else 0) name))"
  using assms(2)
proof (induction "500 - i" arbitrary: i acc rule: less_induct)
  case less
  show ?case
  proof (cases "i < 500")
    case False
    then show ?thesis by (subst repeat_loop.simps) simp
  next
    case True
    let ?L = "length name"
    have step: "repeat_loop i name acc = repeat_loop (i + ?L) name (acc @ name)"
      using True less.prems by (subst repeat_loop.simps) simp
    have "500 - (i + ?L) < 500 - i" using True assms(1) by linarith
    then have ih: "repeat_loop (i + ?L) name (acc @ name) =
        Some ((acc @ name) @ concat (replicate (if i + ?L < 500 then (499 - (i + ?L)) div ?L + 1 else 0) name))"
      using less.hyps [of "i + ?L" "acc @ name"] less.prems by simp
    have count: "(499 - i) div ?L + 1 = Suc (if i + ?L < 500 then (499 - (i + ?L)) div ?L + 1 else 0)"
    proof (cases "i + ?L < 500")
      case True
      then have "499 - i = (499 - (i + ?L)) + ?L" by simp
      then have "(499 - i) div ?L = (499 - (i + ?L)) div ?L + 1"
        using assms(1) by (metis div_add_self2 less_numeral_extra(3))
      with True show ?thesis by simp
    next
      case False
      then have "499 - i < ?L" using \<open>i < 500\<close> by simp
      then show ?thesis using False by simp
    qed
    show ?thesis
      unfolding step ih using True count by (simp add: replicate_append_same)
  qed
qed

lemma copies_least:
  assumes "0 < (L::nat)"
  shows "(LEAST k. 500 \<le> k * L) = (499 + L) div L"
proof (rule Least_equality)
  have "L * ((499 + L) div L) + (499 + L) mod L = 499 + L" by (rule mult_div_mod_eq)
  moreover have "(499 + L) mod L < L" using assms by simp
  ultimately have "499 < L * ((499 + L) div L)" by linarith
  then show "500 \<le> (499 + L) div L * L" by (simp add: mult.commute)
next
  fix k assume "500 \<le> k * L"
  then have "499 + L < (k + 1) * L" using assms by simp
  then have "(499 + L) div L < k + 1"
    using assms by (simp add: div_less_iff_less_mult)
  then show "(499 + L) div L \<le> k" by simp
qed

lemma repeat_model_name_result:
  assumes "name \<noteq> []"
  shows "repeat_model_name name = Some (concat (replicate (LEAST k. 500 \<le> k * length name) name))"
proof -
  let ?L = "length name"
  have L: "0 < ?L" using assms by simp
  have "repeat_model_name name =
        Some (name @ concat (replicate (if ?L < 500 then (499 - ?L) div ?L + 1 else 0) name))"
    unfolding repeat_model_name_def by (rule repeat_loop_result [OF L L])
  moreover have "Suc (if ?L < 500 then (499 - ?L) div ?L + 1 else 0) = (499 + ?L) div ?L"
  proof (cases "?L < 500")
    case True
    then have "499 + ?L = (499 - ?L) + ?L + ?L" by simp
    then have "(499 + ?L) div ?L = (499 - ?L) div ?L + 1 + 1"
      using L by (metis div_add_self2 less_numeral_extra(3))
    with True show ?thesis by simp
  next
    case False
    then have "(499 + ?L) div ?L = 1"
      by (intro div_nat_eqI) simp_all
    with False show ?thesis by simp
  qed
  ultimately show ?thesis
    using copies_least [OF L] by (metis replicate_Suc concat.simps(2))
qed


text \<open>
  C5. In TRTGenerateId, when the top-level graph has a non-empty model file name of
  length L, the first string passed to the hash is the file name concatenated with
  itself k times, k the least number with k * L >= 500 (the name itself when
  L >= 500): the returned id is the one of the hash state that results from hashing
  that string with seed 0 and then the remaining strings. When the graph has no file
  name, nothing is passed for this step: the id is the one that results from hashing
  the remaining strings only, from the zero state. The function returns in all
  cases, whatever the hash function is.
\<close>

theorem TRTGenerateId_file_name_step:
  "let name = model_file_name (top_level_graph (GetGraph graph_viewer));
       others = other_strings build graph_viewer trt_version cuda_version;
       strings = hashed_strings build graph_viewer trt_version cuda_version;
       repeated = concat (replicate (LEAST k. 500 \<le> k * length name) name);
       id_after = (\<lambda>first_hash.
         let hash = foldl (\<lambda>hash str. hash_str x86_128 str hash) first_hash others
         in or (ucast (fst hash)) (push_bit 32 (ucast (fst (snd hash)))));
       result = TRTGenerateId x86_128 build graph_viewer trt_version cuda_version
   in (name = [] \<longrightarrow> strings = Some others \<and> result = Some (id_after (0, 0, 0, 0))) \<and>
      (name \<noteq> [] \<longrightarrow>
         strings = Some (repeated # others) \<and>
         result = Some (id_after (x86_128 repeated (word_of_nat (length repeated)) 0))) \<and>
      (500 \<le> length name \<longrightarrow>
         strings = Some (name # others) \<and>
         result = Some (id_after (x86_128 name (word_of_nat (length name)) 0))) \<and>
      (\<exists>id. result = Some id)"
proof -
  define name where "name = model_file_name (top_level_graph (GetGraph graph_viewer))"
  define others where "others = other_strings build graph_viewer trt_version cuda_version"
  define strings where "strings = hashed_strings build graph_viewer trt_version cuda_version"
  define repeated where "repeated = concat (replicate (LEAST k. 500 \<le> k * length name) name)"
  define id_after where "id_after = (\<lambda>first_hash.
         let hash = foldl (\<lambda>hash str. hash_str x86_128 str hash) first_hash others
         in or (ucast (fst hash)) (push_bit 32 (ucast (fst (snd hash)))) :: 64 word)"
  define result where "result = TRTGenerateId x86_128 build graph_viewer trt_version cuda_version"
  have fed: "result = Some (id_after (0, 0, 0, 0))" if "strings = Some others"
    using that
    by (simp add: result_def TRTGenerateId_def strings_def [symmetric] id_after_def)
  have fed_first: "result = Some (id_after (x86_128 s (word_of_nat (length s)) 0))"
    if "strings = Some (s # others)" for s
    using that
    by (simp add: result_def TRTGenerateId_def strings_def [symmetric] id_after_def
        hash_str_def)
  have empty: "strings = Some others" if "name = []"
    using that by (simp add: strings_def hashed_strings_def model_name_strings_def
        name_def others_def)
  have nonempty: "strings = Some (repeated # others)" if "name \<noteq> []"
    using that repeat_model_name_result [OF that]
    by (simp add: strings_def hashed_strings_def model_name_strings_def name_def others_def
        repeated_def)
  have long: "strings = Some (name # others)" if "500 \<le> length name"
  proof -
    from that have ne: "name \<noteq> []" by auto
    have "(499 + length name) div length name = 1"
      using that by (intro div_nat_eqI) simp_all
    then have "(LEAST k. 500 \<le> k * length name) = 1"
      using copies_least [of "length name"] ne by simp
    with nonempty [OF ne] show ?thesis by (simp add: repeated_def)
  qed
  have c1: "name = [] \<longrightarrow> strings = Some others \<and> result = Some (id_after (0, 0, 0, 0))"
    using empty fed by blast
  have c2: "name \<noteq> [] \<longrightarrow> strings = Some (repeated # others) \<and>
         result = Some (id_after (x86_128 repeated (word_of_nat (length repeated)) 0))"
    using nonempty fed_first by blast
  have c3: "500 \<le> length name \<longrightarrow> strings = Some (name # others) \<and>
         result = Some (id_after (x86_128 name (word_of_nat (length name)) 0))"
    using long fed_first by blast
  have c4: "\<exists>id. result = Some id"
    using c1 c2 by (cases "name = []") auto
  show ?thesis
    unfolding Let_def name_def [symmetric] others_def [symmetric] strings_def [symmetric]
      repeated_def [symmetric] result_def [symmetric]
    using c1 c2 c3 c4 unfolding id_after_def Let_def
    by blast
qed

theorem TRTGenerateId_file_name_step_witness:
  "model_file_name (top_level_graph (GetGraph
     \<lparr>GetGraph = Graph (Some (Graph None ''m.onnx'')) [],
      GetInputsIncludingInitializers = [\<lparr>Name = ''x'', Exists = True\<rparr>],
      OutputDefsInTopologicalOrder =
        [[\<lparr>Name = ''y'', Exists = True\<rparr>, \<lparr>Name = ''z'', Exists = False\<rparr>]]\<rparr>)) \<noteq> [] \<and>
   hashed_strings
     \<lparr>target_platform = Linux, ORT_VERSION = Some ''1.22.0'', CUDA_VERSION_defined = True,
      NV_TENSORRT_MAJOR_MINOR_defined = True\<rparr>
     \<lparr>GetGraph = Graph (Some (Graph None ''m.onnx'')) [],
      GetInputsIncludingInitializers = [\<lparr>Name = ''x'', Exists = True\<rparr>],
      OutputDefsInTopologicalOrder =
        [[\<lparr>Name = ''y'', Exists = True\<rparr>, \<lparr>Name = ''z'', Exists = False\<rparr>]]\<rparr>
     ''10.9'' ''12.8'' =
   Some [concat (replicate 84 ''m.onnx''), ''x'', ''y'', ''LINUX'', ''1.22.0'', ''12.8'', ''10.9''] \<and>
   TRTGenerateId (\<lambda>key len seed. (seed + len, 1, 2, 3))
     \<lparr>target_platform = Linux, ORT_VERSION = Some ''1.22.0'', CUDA_VERSION_defined = True,
      NV_TENSORRT_MAJOR_MINOR_defined = True\<rparr>
     \<lparr>GetGraph = Graph (Some (Graph None ''m.onnx'')) [],
      GetInputsIncludingInitializers = [\<lparr>Name = ''x'', Exists = True\<rparr>],
      OutputDefsInTopologicalOrder =
        [[\<lparr>Name = ''y'', Exists = True\<rparr>, \<lparr>Name = ''z'', Exists = False\<rparr>]]\<rparr>
     ''10.9'' ''12.8'' = Some 4294967821"
proof -
  let ?gv = "\<lparr>GetGraph = Graph (Some (Graph None ''m.onnx'')) [],
      GetInputsIncludingInitializers = [\<lparr>Name = ''x'', Exists = True\<rparr>],
      OutputDefsInTopologicalOrder =
        [[\<lparr>Name = ''y'', Exists = True\<rparr>, \<lparr>Name = ''z'', Exists = False\<rparr>]]\<rparr>"
  let ?build = "\<lparr>target_platform = Linux, ORT_VERSION = Some ''1.22.0'',
      CUDA_VERSION_defined = True, NV_TENSORRT_MAJOR_MINOR_defined = True\<rparr>"
  let ?h = "\<lambda>(key :: string) (len :: 32 word) (seed :: 32 word).
      (seed + len, 1 :: 32 word, 2 :: 32 word, 3 :: 32 word)"
  have name: "model_file_name (top_level_graph (GetGraph ?gv)) = ''m.onnx''"
    by simp
  have k: "(LEAST k. 500 \<le> k * length ''m.onnx'') = 84"
    using copies_least [of "length ''m.onnx''"] by simp
  have others: "other_strings ?build ?gv ''10.9'' ''12.8'' =
      [''x'', ''y'', ''LINUX'', ''1.22.0'', ''12.8'', ''10.9'']"
    by (simp add: other_strings_def)
  have len: "length (concat (replicate 84 ''m.onnx'')) = 504"
    by (simp add: length_concat sum_list_replicate)
  have step: "hashed_strings ?build ?gv ''10.9'' ''12.8'' =
        Some (concat (replicate 84 ''m.onnx'') # [''x'', ''y'', ''LINUX'', ''1.22.0'', ''12.8'', ''10.9'']) \<and>
      TRTGenerateId ?h ?build ?gv ''10.9'' ''12.8'' =
        Some (let hash = foldl (\<lambda>hash str. hash_str ?h str hash)
                (?h (concat (replicate 84 ''m.onnx'')) (word_of_nat (length (concat (replicate 84 ''m.onnx'')))) 0)
                [''x'', ''y'', ''LINUX'', ''1.22.0'', ''12.8'', ''10.9'']
              in or (ucast (fst hash)) (push_bit 32 (ucast (fst (snd hash)))))"
    using TRTGenerateId_file_name_step [of ?gv ?build "''10.9''" "''12.8''" ?h]
    unfolding Let_def name k others by simp
  have "(let hash = foldl (\<lambda>hash str. hash_str ?h str hash)
                (?h (concat (replicate 84 ''m.onnx'')) (word_of_nat (length (concat (replicate 84 ''m.onnx'')))) 0)
                [''x'', ''y'', ''LINUX'', ''1.22.0'', ''12.8'', ''10.9'']
              in or (ucast (fst hash)) (push_bit 32 (ucast (fst (snd hash))))) = (4294967821 :: 64 word)"
    unfolding len by (simp add: hash_str_def)
  with step name show ?thesis by simp
qed

section \<open>GetCacheSuffix: split, find and the result\<close>

lemma split_loop_tokens_sublist:
  "t \<in> set (split_loop d token s) \<Longrightarrow> sublist t (token @ s)"
proof (induction s arbitrary: token)
  case Nil
  then show ?case by (auto split: if_splits)
next
  case (Cons c rest)
  show ?case
  proof (cases "c = d")
    case True
    with Cons.prems have "t = token \<or> t \<in> set (split_loop d [] rest)" by auto
    then show ?thesis
    proof
      assume "t = token"
      then show ?thesis by simp
    next
      assume "t \<in> set (split_loop d [] rest)"
      then have "sublist t rest" using Cons.IH [of "[]"] by simp
      then obtain ps ss where "rest = ps @ t @ ss" by (auto simp: sublist_def)
      then have "token @ c # rest = (token @ c # ps) @ t @ ss" by simp
      then show ?thesis unfolding sublist_def by blast
    qed
  next
    case False
    with Cons.prems have "t \<in> set (split_loop d (token @ [c]) rest)" by simp
    then have "sublist t ((token @ [c]) @ rest)" by (rule Cons.IH)
    then show ?thesis by simp
  qed
qed

lemma sublist_starts: "sublist t s \<longleftrightarrow> (\<exists>i\<le>length s. prefix t (drop i s))"
proof
  assume "sublist t s"
  then obtain ps ss where "s = ps @ t @ ss" by (auto simp: sublist_def)
  then have "prefix t (drop (length ps) s)" and "length ps \<le> length s" by simp_all
  then show "\<exists>i\<le>length s. prefix t (drop i s)" by blast
next
  assume "\<exists>i\<le>length s. prefix t (drop i s)"
  then obtain i where "prefix t (drop i s)" by blast
  then obtain ss where "drop i s = t @ ss" by (auto simp: prefix_def)
  then have "s = take i s @ t @ ss" by (metis append_take_drop_id)
  then show "sublist t s" by (auto simp: sublist_def)
qed

lemma find_from_first:
  assumes "prefix needle (drop i s)" and "i \<le> length s"
  shows "find_from pos needle s = Some (pos + (LEAST j. prefix needle (drop j s)))"
  using assms
proof (induction s arbitrary: pos i)
  case Nil
  then have "needle = []" by simp
  then show ?case by simp
next
  case (Cons c rest)
  show ?case
  proof (cases "prefix needle (c # rest)")
    case True
    then have "(LEAST j. prefix needle (drop j (c # rest))) = 0"
      by (intro Least_equality) simp_all
    with True show ?thesis by simp
  next
    case False
    with Cons.prems obtain i' where i': "i = Suc i'" by (cases i) auto
    with Cons.prems have p: "prefix needle (drop i' rest)" and le: "i' \<le> length rest" by simp_all
    have ih: "find_from (Suc pos) needle rest = Some (Suc pos + (LEAST j. prefix needle (drop j rest)))"
      by (rule Cons.IH [OF p le])
    have "(LEAST j. prefix needle (drop j (c # rest))) = Suc (LEAST j. prefix needle (drop j rest))"
    proof (rule Least_Suc [where P = "\<lambda>j. prefix needle (drop j (c # rest))" and n = i, simplified])
      show "prefix needle (drop i (c # rest))" by (rule Cons.prems(1))
      show "\<not> prefix needle (c # rest)" by (rule False)
    qed
    with False ih show ?thesis by simp
  qed
qed

lemma string_find_token:
  assumes "sublist t s"
  shows "string_find s t = Some (LEAST j. prefix t (drop j s))"
proof -
  from assms obtain i where "i \<le> length s" and "prefix t (drop i s)"
    by (auto simp: sublist_starts)
  then show ?thesis
    unfolding string_find_def using find_from_first [of t i s 0] by simp
qed

lemma first_start_bound:
  assumes "sublist t s"
  shows "prefix t (drop (LEAST j. prefix t (drop j s)) s) \<and> (LEAST j. prefix t (drop j s)) \<le> length s"
proof -
  from assms obtain i where i: "i \<le> length s" "prefix t (drop i s)"
    by (auto simp: sublist_starts)
  have "prefix t (drop (LEAST j. prefix t (drop j s)) s)"
    using i(2) by (rule LeastI)
  moreover have "(LEAST j. prefix t (drop j s)) \<le> i"
    using i(2) by (rule Least_le)
  ultimately show ?thesis using i(1) by simp
qed

lemma first_start_extension:
  assumes "sublist t s" and "prefix s s'"
  shows "(LEAST j. prefix t (drop j s')) = (LEAST j. prefix t (drop j s))"
proof (rule Least_equality)
  let ?k = "LEAST j. prefix t (drop j s)"
  from assms(2) obtain e where s': "s' = s @ e" by (auto simp: prefix_def)
  have k: "prefix t (drop ?k s)" "?k \<le> length s"
    using first_start_bound [OF assms(1)] by simp_all
  then show "prefix t (drop ?k s')"
    by (simp add: s' prefix_def) (metis append.assoc)
  fix j assume j: "prefix t (drop j s')"
  show "?k \<le> j"
  proof (rule ccontr)
    assume "\<not> ?k \<le> j"
    then have jk: "j < ?k" by simp
    from k(1) obtain r where r: "drop ?k s = t @ r" by (auto simp: prefix_def)
    then have "length t \<le> length s - ?k" by (metis length_append length_drop le_add1)
    then have fits: "j + length t \<le> length s" using jk k(2) by simp
    from j have "take (length t) (drop j s') = t"
      by (auto simp: prefix_def)
    moreover have "take (length t) (drop j s') = take (length t) (drop j s)"
      using fits by (simp add: s')
    ultimately have "prefix t (drop j s)"
      by (metis take_is_prefix)
    then have "?k \<le> j" by (rule Least_le)
    with jk show False by simp
  qed
qed


text \<open>
  C6 (amended). GetCacheSuffix returns the empty string when fused_node_name has fewer
  than 3 underscore-delimited tokens. Otherwise it takes the third-from-last token of
  fused_node_name, locates its first occurrence inside fused_node_name (it always
  occurs there), and splits trt_node_name_with_precision from that index onward by
  underscore, removes the token at index 2 when the split yields more than 2 tokens,
  and returns the remaining tokens rejoined with underscores; when the index exceeds
  the length of trt_node_name_with_precision, substr throws std::out_of_range.
  Whenever fused_node_name is a prefix of trt_node_name_with_precision, the result is
  the one the specification describes.
\<close>

theorem GetCacheSuffix_result:
  "let tokens = split fused_node_name CHR ''_'';
       model_hash = tokens ! (length tokens - 3);
       index = (LEAST i. prefix model_hash (drop i fused_node_name));
       suffix_group = split (drop index trt_node_name_with_precision) CHR ''_''
   in (length tokens < 3 \<longrightarrow>
         GetCacheSuffix fused_node_name trt_node_name_with_precision = Inr []) \<and>
      (3 \<le> length tokens \<longrightarrow>
         prefix model_hash (drop index fused_node_name) \<and>
         index \<le> length fused_node_name \<and>
         (index \<le> length trt_node_name_with_precision \<longrightarrow>
            GetCacheSuffix fused_node_name trt_node_name_with_precision =
              Inr (join (if length suffix_group > 2 then erase_at_2 suffix_group
                         else suffix_group) ''_'')) \<and>
         (length trt_node_name_with_precision < index \<longrightarrow>
            GetCacheSuffix fused_node_name trt_node_name_with_precision = Inl StdOutOfRange) \<and>
         (prefix fused_node_name trt_node_name_with_precision \<longrightarrow>
            (\<exists>suffix. GetCacheSuffix fused_node_name trt_node_name_with_precision = Inr suffix \<and>
               DeriveSuffix_as_specified fused_node_name trt_node_name_with_precision =
                 Some suffix)))"
proof -
  define tokens where "tokens = split fused_node_name CHR ''_''"
  define model_hash where "model_hash = tokens ! (length tokens - 3)"
  define index where "index = (LEAST i. prefix model_hash (drop i fused_node_name))"
  define suffix_group where
    "suffix_group = split (drop index trt_node_name_with_precision) CHR ''_''"
  define out where
    "out = join (if length suffix_group > 2 then erase_at_2 suffix_group else suffix_group) ''_''"
  have few: "GetCacheSuffix fused_node_name trt_node_name_with_precision = Inr []"
    if "length tokens < 3"
    using that by (simp add: GetCacheSuffix_def tokens_def Let_def)
  have many: "prefix model_hash (drop index fused_node_name) \<and>
         index \<le> length fused_node_name \<and>
         (index \<le> length trt_node_name_with_precision \<longrightarrow>
            GetCacheSuffix fused_node_name trt_node_name_with_precision = Inr out) \<and>
         (length trt_node_name_with_precision < index \<longrightarrow>
            GetCacheSuffix fused_node_name trt_node_name_with_precision = Inl StdOutOfRange) \<and>
         (prefix fused_node_name trt_node_name_with_precision \<longrightarrow>
            (\<exists>suffix. GetCacheSuffix fused_node_name trt_node_name_with_precision = Inr suffix \<and>
               DeriveSuffix_as_specified fused_node_name trt_node_name_with_precision =
                 Some suffix))"
    if three: "3 \<le> length tokens"
  proof -
    have "model_hash \<in> set tokens"
      unfolding model_hash_def using three by (intro nth_mem) simp
    then have sub: "sublist model_hash fused_node_name"
      using split_loop_tokens_sublist [of model_hash "CHR ''_''" "[]" fused_node_name]
      by (simp add: tokens_def split_def)
    have found: "string_find fused_node_name model_hash = Some index"
      unfolding index_def by (rule string_find_token [OF sub])
    have bound: "prefix model_hash (drop index fused_node_name)" "index \<le> length fused_node_name"
      unfolding index_def using first_start_bound [OF sub] by simp_all
    have code: "GetCacheSuffix fused_node_name trt_node_name_with_precision =
        fault_bind (substr trt_node_name_with_precision (Some index)) (\<lambda>from_index.
          let suffix_group = split from_index CHR ''_''
          in Inr (join (if length suffix_group > 2 then erase_at_2 suffix_group
                        else suffix_group) ''_''))"
      using three found
      by (simp add: GetCacheSuffix_def Let_def tokens_def [symmetric] model_hash_def [symmetric])
    have inside: "GetCacheSuffix fused_node_name trt_node_name_with_precision = Inr out"
      if "index \<le> length trt_node_name_with_precision"
      using that unfolding code
      by (simp add: substr_def fault_bind_def Let_def out_def suffix_group_def)
    have outside: "GetCacheSuffix fused_node_name trt_node_name_with_precision = Inl StdOutOfRange"
      if "length trt_node_name_with_precision < index"
      using that unfolding code by (simp add: substr_def fault_bind_def)
    have agree: "\<exists>suffix. GetCacheSuffix fused_node_name trt_node_name_with_precision = Inr suffix \<and>
               DeriveSuffix_as_specified fused_node_name trt_node_name_with_precision = Some suffix"
      if pre: "prefix fused_node_name trt_node_name_with_precision"
    proof -
      have "length fused_node_name \<le> length trt_node_name_with_precision"
        using pre by (rule prefix_length_le)
      with bound(2) have le: "index \<le> length trt_node_name_with_precision" by simp
      have sub': "sublist model_hash trt_node_name_with_precision"
        using sub pre by (meson prefix_imp_sublist sublist_order.order_trans)
      have same: "(LEAST j. prefix model_hash (drop j trt_node_name_with_precision)) = index"
        unfolding index_def by (rule first_start_extension [OF sub pre])
      have "string_find trt_node_name_with_precision model_hash = Some index"
        using string_find_token [OF sub'] same by simp
      then have "DeriveSuffix_as_specified fused_node_name trt_node_name_with_precision = Some out"
        using three
        by (simp add: DeriveSuffix_as_specified_def Let_def tokens_def [symmetric]
            model_hash_def [symmetric] out_def suffix_group_def)
      with inside [OF le] show ?thesis by blast
    qed
    from bound inside outside agree show ?thesis by blast
  qed
  from few many show ?thesis
    unfolding Let_def tokens_def [symmetric] model_hash_def [symmetric] index_def [symmetric]
      suffix_group_def [symmetric] out_def [symmetric]
    by blast
qed

theorem GetCacheSuffix_result_witness:
  "3 \<le> length (split
     ''NvExecutionProvider_TRTKernel_graph_torch-jit-export_2068723788287043730_189_189''
     CHR ''_'') \<and>
   prefix ''NvExecutionProvider_TRTKernel_graph_torch-jit-export_2068723788287043730_189_189''
     ''NvExecutionProvider_TRTKernel_graph_torch-jit-export_2068723788287043730_189_189_fp16'' \<and>
   GetCacheSuffix
     ''NvExecutionProvider_TRTKernel_graph_torch-jit-export_2068723788287043730_189_189''
     ''NvExecutionProvider_TRTKernel_graph_torch-jit-export_2068723788287043730_189_189_fp16''
     = Inr ''2068723788287043730_189_fp16'' \<and>
   DeriveSuffix_as_specified
     ''NvExecutionProvider_TRTKernel_graph_torch-jit-export_2068723788287043730_189_189''
     ''NvExecutionProvider_TRTKernel_graph_torch-jit-export_2068723788287043730_189_189_fp16''
     = Some ''2068723788287043730_189_fp16''"
proof -
  let ?fused = "''NvExecutionProvider_TRTKernel_graph_torch-jit-export_2068723788287043730_189_189''"
  let ?trt = "''NvExecutionProvider_TRTKernel_graph_torch-jit-export_2068723788287043730_189_189_fp16''"
  have three: "3 \<le> length (split ?fused CHR ''_'')"
    by (simp add: split_def)
  have pre: "prefix ?fused ?trt"
    by simp
  have run: "GetCacheSuffix ?fused ?trt = Inr ''2068723788287043730_189_fp16''"
    by (simp add: GetCacheSuffix_def split_def string_find_def substr_def fault_bind_def
        erase_at_2_def)
  from three pre
  have "\<exists>suffix. GetCacheSuffix ?fused ?trt = Inr suffix \<and>
          DeriveSuffix_as_specified ?fused ?trt = Some suffix"
    using GetCacheSuffix_result [of ?fused ?trt] unfolding Let_def by blast
  with run have "DeriveSuffix_as_specified ?fused ?trt = Some ''2068723788287043730_189_fp16''"
    by auto
  with three pre run show ?thesis by blast
qed

text \<open>
  C6 (as stated) fails: for fused_node_name "TRTKernel_graph_m_123_0_0" and
  trt_node_name_with_precision "custom_123_0_0_fp16" the digit-string "123" first
  occurs at index 7 of the second name, which would give "123_0_fp16"; the source
  searches the first name, finds index 18, and returns "6".
\<close>

theorem GetCacheSuffix_index_counterexample:
  "DeriveSuffix_as_specified ''TRTKernel_graph_m_123_0_0'' ''custom_123_0_0_fp16''
     = Some ''123_0_fp16'' \<and>
   GetCacheSuffix ''TRTKernel_graph_m_123_0_0'' ''custom_123_0_0_fp16'' = Inr ''6''"
  by (simp add: DeriveSuffix_as_specified_def GetCacheSuffix_def split_def string_find_def
      substr_def fault_bind_def erase_at_2_def)

section \<open>GetCachesByType: the listing\<close>

lemma GetCachesByType_loop_filter:
  "GetCachesByType_loop ext entries acc = acc @ filter (\<lambda>entry. extension entry = ext) entries"
  by (induction entries arbitrary: acc) auto

lemma filename_path_append:
  assumes "name \<noteq> []" and "CHR ''/'' \<notin> set name"
  shows "filename (path_append root name) = name"
proof -
  have hd: "hd name \<noteq> CHR ''/''"
    using assms by (cases name) auto
  have none: "\<forall>c\<in>set (rev name). c \<noteq> CHR ''/''"
    using assms(2) by auto
  have tw: "takeWhile (\<lambda>c. c \<noteq> CHR ''/'') (rev name @ CHR ''/'' # r) = rev name" for r
    using none by (simp add: takeWhile_tail)
  have all: "takeWhile (\<lambda>c. c \<noteq> CHR ''/'') (rev name) = rev name"
    using none by simp
  show ?thesis
  proof (cases "root = []")
    case True
    then have "path_append root name = name"
      using hd assms(1) by (simp add: path_append_def)
    then show ?thesis by (simp only: filename_def all rev_rev_ident)
  next
    case False
    show ?thesis
    proof (cases "last root = CHR ''/''")
      case True
      then have pa: "path_append root name = root @ name"
        using hd assms(1) by (simp add: path_append_def)
      have "root = butlast root @ [CHR ''/'']"
        using False True by (metis append_butlast_last_id)
      then have "rev root = CHR ''/'' # rev (butlast root)"
        by (metis rev_eq_Cons_iff rev_rev_ident)
      then have "rev (root @ name) = rev name @ CHR ''/'' # rev (butlast root)"
        by simp
      then show ?thesis by (simp only: pa filename_def tw rev_rev_ident)
    next
      case nl: False
      then have pa: "path_append root name = root @ ''/'' @ name"
        using False hd assms(1) by (simp add: path_append_def)
      have "rev (root @ ''/'' @ name) = rev name @ CHR ''/'' # rev root"
        by simp
      then show ?thesis by (simp only: pa filename_def tw rev_rev_ident)
    qed
  qed
qed

lemma filename_idem: "filename (filename p) = filename p"
  by (simp add: filename_def)

lemma extension_filename: "extension (filename p) = extension p"
  by (simp add: extension_def filename_idem)

lemma extension_path_append:
  assumes "name \<noteq> []" and "CHR ''/'' \<notin> set name"
  shows "extension (path_append root name) = extension name"
proof -
  have "extension (path_append root name) = extension (filename (path_append root name))"
    by (simp add: extension_filename)
  also have "\<dots> = extension name"
    by (simp add: filename_path_append [OF assms])
  finally show ?thesis .
qed

text \<open>
  C7 (amended). For a root path that does not exist or is not a directory,
  GetCachesByType fails: the directory iterator throws filesystem_error. For every
  existing directory it returns exactly the entries of that directory (not of its
  subdirectories) whose file extension equals the given extension, in iteration
  order.
\<close>

theorem GetCachesByType_result:
  "(directories root = None \<longrightarrow>
      GetCachesByType directories root file_extension = Inl FilesystemError) \<and>
   (\<forall>names. directories root = Some names \<longrightarrow>
      GetCachesByType directories root file_extension =
        Inr (filter (\<lambda>entry. extension entry = file_extension) (map (path_append root) names)) \<and>
      ((\<forall>name\<in>set names. name \<noteq> [] \<and> CHR ''/'' \<notin> set name) \<longrightarrow>
         GetCachesByType directories root file_extension =
           Inr (map (path_append root) (filter (\<lambda>name. extension name = file_extension) names))))"
proof (intro conjI allI impI)
  assume "directories root = None"
  then show "GetCachesByType directories root file_extension = Inl FilesystemError"
    by (simp add: GetCachesByType_def)
next
  fix names
  assume d: "directories root = Some names"
  then show run: "GetCachesByType directories root file_extension =
        Inr (filter (\<lambda>entry. extension entry = file_extension) (map (path_append root) names))"
    by (simp add: GetCachesByType_def GetCachesByType_loop_filter)
  assume plain: "\<forall>name\<in>set names. name \<noteq> [] \<and> CHR ''/'' \<notin> set name"
  have "filter (\<lambda>entry. extension entry = file_extension) (map (path_append root) names) =
        map (path_append root) (filter (\<lambda>name. extension name = file_extension) names)"
    using plain by (induction names) (simp_all add: extension_path_append)
  with run show "GetCachesByType directories root file_extension =
           Inr (map (path_append root) (filter (\<lambda>name. extension name = file_extension) names))"
    by simp
qed

theorem GetCachesByType_result_witness:
  "(\<lambda>p. if p = ''cache'' then Some [''a.engine'', ''b.profile'', ''c.engine''] else None) ''cache''
     = Some [''a.engine'', ''b.profile'', ''c.engine''] \<and>
   GetCachesByType
     (\<lambda>p. if p = ''cache'' then Some [''a.engine'', ''b.profile'', ''c.engine''] else None)
     ''cache'' ''.engine'' = Inr [''cache/a.engine'', ''cache/c.engine''] \<and>
   (\<lambda>p. if p = ''cache'' then Some [''a.engine'', ''b.profile'', ''c.engine''] else None) ''missing''
     = None \<and>
   GetCachesByType
     (\<lambda>p. if p = ''cache'' then Some [''a.engine'', ''b.profile'', ''c.engine''] else None)
     ''missing'' ''.engine'' = Inl FilesystemError"
proof -
  let ?d = "\<lambda>p. if p = ''cache'' then Some [''a.engine'', ''b.profile'', ''c.engine''] else None"
  have here: "?d ''cache'' = Some [''a.engine'', ''b.profile'', ''c.engine'']" by simp
  have plain: "\<forall>name\<in>set [''a.engine'', ''b.profile'', ''c.engine'']. name \<noteq> [] \<and> CHR ''/'' \<notin> set name"
    by simp
  have "GetCachesByType ?d ''cache'' ''.engine'' =
      Inr (map (path_append ''cache'')
        (filter (\<lambda>name. extension name = ''.engine'') [''a.engine'', ''b.profile'', ''c.engine'']))"
    using GetCachesByType_result [of ?d "''cache''" "''.engine''"] here plain by blast
  then have found: "GetCachesByType ?d ''cache'' ''.engine'' = Inr [''cache/a.engine'', ''cache/c.engine'']"
    by (simp add: extension_def filename_def path_append_def)
  have gone: "?d ''missing'' = None" by simp
  then have "GetCachesByType ?d ''missing'' ''.engine'' = Inl FilesystemError"
    using GetCachesByType_result [of ?d "''missing''" "''.engine''"] by blast
  with here found gone show ?thesis by blast
qed

text \<open>
  C7 (as stated) fails: with a file system whose only directory is "cache",
  GetCachesByType on the missing root "missing" and on the regular file
  "cache/a.engine" does not return an empty sequence but throws.
\<close>

theorem GetCachesByType_missing_root_counterexample:
  "GetCachesByType
     (\<lambda>p. if p = ''cache'' then Some [''a.engine'', ''b.profile'', ''c.engine''] else None)
     ''missing'' ''.engine'' = Inl FilesystemError \<and>
   GetCachesByType
     (\<lambda>p. if p = ''cache'' then Some [''a.engine'', ''b.profile'', ''c.engine''] else None)
     ''cache/a.engine'' ''.engine'' = Inl FilesystemError"
  by (simp add: GetCachesByType_def)

section \<open>ParseProfileShapes: accepted and rejected strings\<close>

lemma parse_values_convert:
  "list_all converts tokens \<Longrightarrow>
   parse_values tokens =
     Inr (map (\<lambda>v. case stoi v of Inl e \<Rightarrow> 0 | Inr n \<Rightarrow> word_of_int n) tokens)"
proof (induction tokens)
  case Nil
  then show ?case by simp
next
  case (Cons v tokens)
  then obtain n where "stoi v = Inr n"
    by (auto simp: converts_def split: sum.splits)
  with Cons show ?case by (simp add: fault_bind_def)
qed

lemma split_loop_Nil: "split_loop d token s = [] \<longleftrightarrow> token = [] \<and> s = []"
  by (induction s arbitrary: token) auto

lemma entry_values_Nil: "entry_values e = [] \<longleftrightarrow> entry_shape e = []"
  by (simp add: entry_values_def split_def split_loop_Nil)

lemma MakeInputNameShapePair_convert:
  assumes "values_convert e"
  shows "MakeInputNameShapePair e ([], []) =
         Inr (if e = [] then (True, ([], []))
              else if accepted e then (True, (entry_name e, entry_shape_vector e))
              else (False, ([], [])))"
proof (cases "e = []")
  case True
  then show ?thesis by (simp add: MakeInputNameShapePair_def)
next
  case False
  have "parse_values (split (entry_shape e) CHR ''x'') = Inr (entry_shape_vector e)"
    using assms parse_values_convert [of "entry_values e"]
    by (simp add: values_convert_def entry_values_def entry_shape_vector_def)
  moreover have "entry_shape_vector e = [] \<longleftrightarrow> entry_shape e = []"
    by (simp add: entry_shape_vector_def entry_values_Nil)
  ultimately show ?thesis
    using False by (auto simp: MakeInputNameShapePair_def Let_def fault_bind_def accepted_def)
qed

lemma entry_name_empty: "entry_name [] = []"
  by (simp add: entry_name_def)

lemma ParseProfileShapes_loop_convert:
  assumes "\<forall>e\<in>set entries. values_convert e"
  shows "\<exists>ok result. ParseProfileShapes_loop entries profile_shapes = Inr (ok, result) \<and>
           (ok \<longleftrightarrow> (\<forall>e\<in>set entries. accepted e)) \<and>
           (ok \<longrightarrow> (\<forall>name. name \<noteq> [] \<longrightarrow>
              subscript result name =
                subscript profile_shapes name @
                map entry_shape_vector (filter (\<lambda>e. entry_name e = name) entries)))"
  using assms
proof (induction entries arbitrary: profile_shapes)
  case Nil
  then show ?case by auto
next
  case (Cons e entries)
  have ve: "values_convert e" and rest: "\<forall>e\<in>set entries. values_convert e"
    using Cons.prems by simp_all
  note mk = MakeInputNameShapePair_convert [OF ve]
  show ?case
  proof (cases "accepted e")
    case False
    then have "e \<noteq> []" by (auto simp: accepted_def)
    with False mk have "ParseProfileShapes_loop (e # entries) profile_shapes = Inr (False, profile_shapes)"
      by (simp add: fault_bind_def)
    moreover have "False \<longleftrightarrow> (\<forall>e\<in>set (e # entries). accepted e)"
      using False by simp
    ultimately show ?thesis by blast
  next
    case True
    define pair where "pair = (if e = [] then ([], []) else (entry_name e, entry_shape_vector e))"
    define next_shapes where "next_shapes = push_back_profile (fst pair) (snd pair) profile_shapes"
    have step: "ParseProfileShapes_loop (e # entries) profile_shapes =
                ParseProfileShapes_loop entries next_shapes"
      using True mk by (auto simp: fault_bind_def pair_def next_shapes_def)
    from Cons.IH [OF rest, of next_shapes] obtain ok result where
      run: "ParseProfileShapes_loop entries next_shapes = Inr (ok, result)" and
      ok: "ok \<longleftrightarrow> (\<forall>e\<in>set entries. accepted e)" and
      sub: "ok \<longrightarrow> (\<forall>name. name \<noteq> [] \<longrightarrow>
              subscript result name =
                subscript next_shapes name @
                map entry_shape_vector (filter (\<lambda>e. entry_name e = name) entries))"
      by blast
    have here: "subscript next_shapes name =
        subscript profile_shapes name @
        map entry_shape_vector (filter (\<lambda>e. entry_name e = name) [e])" if "name \<noteq> []" for name
      using that
      by (auto simp: next_shapes_def pair_def subscript_push_back_profile entry_name_empty)
    have sub': "ok \<longrightarrow> (\<forall>name. name \<noteq> [] \<longrightarrow>
              subscript result name =
                subscript profile_shapes name @
                map entry_shape_vector (filter (\<lambda>e. entry_name e = name) (e # entries)))"
    proof (intro impI allI)
      fix name :: string
      assume "ok" and ne: "name \<noteq> []"
      with sub have "subscript result name =
                subscript next_shapes name @
                map entry_shape_vector (filter (\<lambda>e. entry_name e = name) entries)"
        by blast
      then show "subscript result name =
                subscript profile_shapes name @
                map entry_shape_vector (filter (\<lambda>e. entry_name e = name) (e # entries))"
        using here [OF ne] by simp
    qed
    have ok': "ok \<longleftrightarrow> (\<forall>e\<in>set (e # entries). accepted e)"
      using ok True by simp
    have "ParseProfileShapes_loop (e # entries) profile_shapes = Inr (ok, result)"
      using step run by simp
    with ok' sub' show ?thesis
      by (intro exI [of _ ok] exI [of _ result] conjI)
  qed
qed


text \<open>
  C8 (amended). For every textual shape-spec string in which every shape value is a
  number std::stoi converts, ParseProfileShapes returns false exactly when some
  non-empty comma-separated entry has an empty tensor name or an empty shape part;
  an empty entry is accepted. When it returns true, every non-empty tensor name has
  received one additional profile for each entry that names it, in order: a
  well-formed string parses successfully and repeating the same tensor name
  contributes an additional profile for that tensor.
\<close>

theorem ParseProfileShapes_result:
  assumes "\<forall>e\<in>set (split profile_shapes_string CHR '',''). values_convert e"
  shows "\<exists>ok result.
           ParseProfileShapes profile_shapes_string profile_shapes = Inr (ok, result) \<and>
           (ok \<longleftrightarrow> (\<forall>e\<in>set (split profile_shapes_string CHR '',''). accepted e)) \<and>
           (ok \<longrightarrow> (\<forall>name. name \<noteq> [] \<longrightarrow>
              subscript result name =
                subscript profile_shapes name @
                map entry_shape_vector
                  (filter (\<lambda>e. entry_name e = name) (split profile_shapes_string CHR '',''))))"
proof -
  have "ParseProfileShapes profile_shapes_string profile_shapes =
        ParseProfileShapes_loop (split profile_shapes_string CHR '','') profile_shapes"
    by (simp add: ParseProfileShapes_def split_def)
  then show ?thesis
    using ParseProfileShapes_loop_convert [OF assms, of profile_shapes] by simp
qed

theorem ParseProfileShapes_result_witness:
  "list_all values_convert
     (split ''input_id:32x1,attention_mask:32x1,input_id:32x41,attention_mask:32x41'' CHR '','') \<and>
   (\<exists>result.
      ParseProfileShapes ''input_id:32x1,attention_mask:32x1,input_id:32x41,attention_mask:32x41''
        [] = Inr (True, result) \<and>
      subscript result ''input_id'' = [[32, 1], [32, 41]] \<and>
      subscript result ''attention_mask'' = [[32, 1], [32, 41]])"
proof -
  let ?s = "''input_id:32x1,attention_mask:32x1,input_id:32x41,attention_mask:32x41''"
  have entries: "split ?s CHR '','' =
      [''input_id:32x1'', ''attention_mask:32x1'', ''input_id:32x41'', ''attention_mask:32x41'']"
    by (simp add: split_def)
  have conv: "\<forall>e\<in>set (split ?s CHR '',''). values_convert e"
    unfolding entries
    by (simp add: values_convert_def entry_values_def entry_shape_def split_def converts_def
        stoi_def isspace_def isdigit_def decimal_def)
  have acc: "\<forall>e\<in>set (split ?s CHR '',''). accepted e"
    unfolding entries by (simp add: accepted_def entry_name_def entry_shape_def)
  have v1: "map entry_shape_vector (filter (\<lambda>e. entry_name e = ''input_id'') (split ?s CHR '',''))
      = [[32, 1], [32, 41]]"
    unfolding entries
    by (simp add: entry_name_def entry_shape_vector_def entry_values_def entry_shape_def
        split_def stoi_def isspace_def isdigit_def decimal_def)
  have v2: "map entry_shape_vector
      (filter (\<lambda>e. entry_name e = ''attention_mask'') (split ?s CHR '','')) = [[32, 1], [32, 41]]"
    unfolding entries
    by (simp add: entry_name_def entry_shape_vector_def entry_values_def entry_shape_def
        split_def stoi_def isspace_def isdigit_def decimal_def)
  from ParseProfileShapes_result [OF conv, of "[]"] obtain ok result where
    run: "ParseProfileShapes ?s [] = Inr (ok, result)" and
    ok: "ok \<longleftrightarrow> (\<forall>e\<in>set (split ?s CHR '',''). accepted e)" and
    sub: "ok \<longrightarrow> (\<forall>name. name \<noteq> [] \<longrightarrow>
              subscript result name =
                subscript [] name @
                map entry_shape_vector (filter (\<lambda>e. entry_name e = name) (split ?s CHR '','')))"
    by blast
  from ok acc have "ok" by simp
  with sub have s1: "subscript result ''input_id'' = [[32, 1], [32, 41]]"
    and s2: "subscript result ''attention_mask'' = [[32, 1], [32, 41]]"
    using v1 v2 by (simp_all add: subscript_def)
  from run \<open>ok\<close> have "ParseProfileShapes ?s [] = Inr (True, result)" by simp
  with s1 s2 have "\<exists>result. ParseProfileShapes ?s [] = Inr (True, result) \<and>
      subscript result ''input_id'' = [[32, 1], [32, 41]] \<and>
      subscript result ''attention_mask'' = [[32, 1], [32, 41]]"
    by blast
  with conv show ?thesis by (simp add: list_all_iff)
qed

text \<open>
  C8 (as stated) fails: in "a:1,,b:2" the second entry is empty, so its tensor name
  is empty, and ParseProfileShapes returns true. In "a:1,b:c" the shape part of the
  second entry is not a number, and the call does not return false: std::stoi throws
  std::invalid_argument.
\<close>

theorem ParseProfileShapes_empty_entry_counterexample:
  "split ''a:1,,b:2'' CHR '','' = [''a:1'', [], ''b:2''] \<and>
   entry_name [] = [] \<and> entry_shape [] = [] \<and>
   ParseProfileShapes ''a:1,,b:2'' [] =
     Inr (True, [(''a'', [[1]]), ([], [[]]), (''b'', [[2]])]) \<and>
   ParseProfileShapes ''a:1,b:c'' [] = Inl StdInvalidArgument"
  by (simp add: ParseProfileShapes_def split_def MakeInputNameShapePair_def entry_name_def
      entry_shape_def fault_bind_def stoi_def isspace_def isdigit_def decimal_def
      push_back_profile_def subscript_def)

end
